theory Spec2Isabelle
  imports Complex_Main "HOL-Library.AList" "HOL-Library.Sublist"
begin

section \<open>Strings, numbers and the JavaScript built-ins the engine calls\<close>

text \<open>
  The engine is \<^verbatim>\<open>src/components/applications.js\<close>, class \<^verbatim>\<open>ApplicationsBlur\<close>.
  A JavaScript string is modelled as a \<^typ>\<open>string\<close> whose characters are code units
  below 256. A JavaScript number that the engine only stores (a brightness) is a
  \<open>jsnum\<close>: \<open>Num q\<close> stands for the double nearest to the rational \<open>q\<close>, so that the
  literal \<^verbatim>\<open>0.5\<close> and the result of \<^verbatim>\<open>parseFloat("0.5")\<close> are the same \<open>Num (1/2)\<close>.
  The rounding itself is not modelled: a rational beyond the range of the doubles stands
  for an infinity, and two rationals that round to one double are still two terms, so
  nothing below states that two brightnesses differ, or evaluates such a text.
  A number the engine compares (a sigma) is an \<^typ>\<open>int\<close>, and \<open>None\<close> is \<^verbatim>\<open>NaN\<close>.
\<close>

datatype jsnum = NaN | PosInfinity | NegInfinity | Num rat

definition is_digit :: "char \<Rightarrow> bool" where
  "is_digit c = (c \<in> set ''0123456789'')"

definition is_hex_digit :: "char \<Rightarrow> bool" where
  "is_hex_digit c = (c \<in> set ''0123456789abcdefABCDEF'')"

text \<open>White space that \<^verbatim>\<open>parseInt\<close> and \<^verbatim>\<open>parseFloat\<close> skip: TAB, LF, VT, FF, CR, SP, NBSP.\<close>

definition is_white_space :: "char \<Rightarrow> bool" where
  "is_white_space c = ((of_char c :: nat) \<in> {9, 10, 11, 12, 13, 32, 160})"

text \<open>Line terminators, which \<^verbatim>\<open>.\<close> in a regular expression does not match: LF and CR.\<close>

definition is_line_terminator :: "char \<Rightarrow> bool" where
  "is_line_terminator c = ((of_char c :: nat) \<in> {10, 13})"

definition digit_value :: "char \<Rightarrow> int" where
  "digit_value c =
     (let n = int (of_char c) in
      if 48 \<le> n \<and> n \<le> 57 then n - 48
      else if 97 \<le> n \<and> n \<le> 102 then n - 87
      else n - 55)"

definition digits_value :: "int \<Rightarrow> string \<Rightarrow> int" where
  "digits_value radix ds = foldl (\<lambda>acc c. acc * radix + digit_value c) 0 ds"

text \<open>
  \<^verbatim>\<open>parseInt(string)\<close> with no radix: skip white space, read a sign, read \<^verbatim>\<open>0x\<close> or
  \<^verbatim>\<open>0X\<close> as the hexadecimal prefix, take the longest run of digits of the radix; no digit
  gives \<^verbatim>\<open>NaN\<close>. The value is the exact integer: the engine only compares it with 0 and
  999, and stores it when it lies between them, where a double is exact (and \<^verbatim>\<open>-0\<close> is 0).
\<close>

definition parseInt :: "string \<Rightarrow> int option" where
  "parseInt str =
     (let S = dropWhile is_white_space str;
          negative = (case S of [] \<Rightarrow> False | c # _ \<Rightarrow> c = CHR ''-'');
          S1 = (case S of [] \<Rightarrow> []
                | c # t \<Rightarrow> if c = CHR ''+'' \<or> c = CHR ''-'' then t else S);
          hex = (prefix ''0x'' S1 \<or> prefix ''0X'' S1);
          S2 = (if hex then drop 2 S1 else S1);
          Z = takeWhile (if hex then is_hex_digit else is_digit) S2
      in if Z = [] then None
         else Some ((if negative then - 1 else 1) * digits_value (if hex then 16 else 10) Z))"

text \<open>
  \<^verbatim>\<open>parseFloat(string)\<close>: skip white space, then the longest prefix that is a decimal
  literal: a sign, then \<^verbatim>\<open>Infinity\<close> or digits with an optional fraction and an optional
  exponent; an exponent with no digit is not part of the literal.
\<close>

definition exponent_part :: "string \<Rightarrow> int" where
  "exponent_part r =
     (case r of [] \<Rightarrow> 0
      | c # t \<Rightarrow>
          if c = CHR ''e'' \<or> c = CHR ''E'' then
            (let negative = (case t of [] \<Rightarrow> False | d # _ \<Rightarrow> d = CHR ''-'');
                 t1 = (case t of [] \<Rightarrow> []
                       | d # u \<Rightarrow> if d = CHR ''+'' \<or> d = CHR ''-'' then u else t);
                 ed = takeWhile is_digit t1
             in if ed = [] then 0
                else (if negative then - 1 else 1) * digits_value 10 ed)
          else 0)"

definition scale10 :: "rat \<Rightarrow> int \<Rightarrow> rat" where
  "scale10 q e = (if 0 \<le> e then q * 10 ^ nat e else q / 10 ^ nat (- e))"

definition parseFloat :: "string \<Rightarrow> jsnum" where
  "parseFloat str =
     (let S = dropWhile is_white_space str;
          negative = (case S of [] \<Rightarrow> False | c # _ \<Rightarrow> c = CHR ''-'');
          S1 = (case S of [] \<Rightarrow> []
                | c # t \<Rightarrow> if c = CHR ''+'' \<or> c = CHR ''-'' then t else S)
      in if prefix ''Infinity'' S1 then (if negative then NegInfinity else PosInfinity)
         else
           (let ip = takeWhile is_digit S1;
                r1 = dropWhile is_digit S1;
                fp = (case r1 of [] \<Rightarrow> []
                      | c # t \<Rightarrow> if c = CHR ''.'' then takeWhile is_digit t else []);
                r2 = (case r1 of [] \<Rightarrow> []
                      | c # t \<Rightarrow> if c = CHR ''.'' then dropWhile is_digit t else r1)
            in if ip = [] \<and> fp = [] then NaN
               else
                 (let m = of_int (digits_value 10 ip)
                          + of_int (digits_value 10 fp) / 10 ^ length fp
                  in Num (scale10 ((if negative then - 1 else 1) * m) (exponent_part r2)))))"

section \<open>Regular expressions: the backtracking matcher of \<^verbatim>\<open>String.prototype.match\<close>\<close>

text \<open>
  \<^verbatim>\<open>str.match(pattern)\<close> with a string pattern compiles it to a regular expression without
  flags and returns the leftmost match, the alternatives and the greedy quantifiers tried
  in the order of the pattern. The syntax below has the constructs the engine's three
  patterns use. \<open>matches r (s, caps)\<close> lists, in that order of preference, every way
  \<open>r\<close> matches a prefix of \<open>s\<close>: the text left over and the capture groups.
\<close>

datatype char_class = Any_char | Digit_char

datatype regex =
    Lit string
  | Class char_class
  | Star char_class
  | Repeat nat nat char_class
  | Opt regex
  | Alt regex regex
  | Seq regex regex
  | Group nat regex

type_synonym captures = "nat \<Rightarrow> string option"

fun in_class :: "char_class \<Rightarrow> char \<Rightarrow> bool" where
  "in_class Any_char c = (\<not> is_line_terminator c)"
| "in_class Digit_char c = is_digit c"

text \<open>The texts left after a greedy \<^verbatim>\<open>*\<close>: the longest run first.\<close>

fun star_tails :: "(char \<Rightarrow> bool) \<Rightarrow> string \<Rightarrow> string list" where
  "star_tails p [] = [[]]"
| "star_tails p (c # t) = (if p c then star_tails p t @ [c # t] else [c # t])"

text \<open>The texts left after a greedy \<^verbatim>\<open>{lo,hi}\<close>: the longest run first.\<close>

fun repeat_tails :: "(char \<Rightarrow> bool) \<Rightarrow> nat \<Rightarrow> nat \<Rightarrow> string \<Rightarrow> string list" where
  "repeat_tails p lo hi [] = (if lo = 0 then [[]] else [])"
| "repeat_tails p lo hi (c # t) =
     (if hi \<noteq> 0 \<and> p c then repeat_tails p (lo - 1) (hi - 1) t else [])
     @ (if lo = 0 then [c # t] else [])"

fun matches :: "regex \<Rightarrow> string \<times> captures \<Rightarrow> (string \<times> captures) list" where
  "matches (Lit l) (s, caps) = (if prefix l s then [(drop (length l) s, caps)] else [])"
| "matches (Class k) (s, caps) =
     (case s of [] \<Rightarrow> [] | c # t \<Rightarrow> if in_class k c then [(t, caps)] else [])"
| "matches (Star k) (s, caps) = map (\<lambda>t. (t, caps)) (star_tails (in_class k) s)"
| "matches (Repeat lo hi k) (s, caps) =
     map (\<lambda>t. (t, caps)) (repeat_tails (in_class k) lo hi s)"
| "matches (Opt r) (s, caps) = matches r (s, caps) @ [(s, caps)]"
| "matches (Alt a b) (s, caps) = matches a (s, caps) @ matches b (s, caps)"
| "matches (Seq a b) (s, caps) = concat (map (matches b) (matches a (s, caps)))"
| "matches (Group n r) (s, caps) =
     map (\<lambda>(t, caps'). (t, caps'(n \<mapsto> take (length s - length t) s)))
       (matches r (s, caps))"

text \<open>The leftmost match: the capture groups of the first position where the pattern matches.\<close>

fun match :: "regex \<Rightarrow> string \<Rightarrow> captures option" where
  "match r [] = (case matches r ([], Map.empty) of [] \<Rightarrow> None | (_, caps) # _ \<Rightarrow> Some caps)"
| "match r (c # t) =
     (case matches r (c # t, Map.empty) of [] \<Rightarrow> match r t | (_, caps) # _ \<Rightarrow> Some caps)"

section \<open>The engine's data\<close>

text \<open>
  A token (\<^verbatim>\<open>pid\<close>) is the string \<^verbatim>\<open>track_new\<close> draws from \<^verbatim>\<open>Math.random()\<close>; the
  model takes it as an argument. A \<open>meta_window\<close> is what the engine reads of a window:
  \<^verbatim>\<open>get_mutter_hints()\<close>, \<^verbatim>\<open>get_wm_class()\<close> and \<^verbatim>\<open>get_compositor_private()\<close>, the window's
  actor (each \<open>None\<close> when it returns \<^verbatim>\<open>null\<close>), and the two rectangles. A \<open>blur_actor\<close> is what the engine writes of
  an overlay: position, the offsets of its two constraints (width, height), the
  parameters of its \<^verbatim>\<open>blur-effect\<close>, and whether it is shown.
\<close>

type_synonym pid = string

record rect =
  rect_x :: int
  rect_y :: int
  rect_width :: int
  rect_height :: int

record window_actor =
  visible :: bool

record meta_window =
  mutter_hints :: "string option"
  wm_class :: "string option"
  frame_rect :: rect
  buffer_rect :: rect
  compositor_private :: "window_actor option"

record blur_effect =
  sigma :: int
  brightness :: jsnum

record blur_actor =
  actor_x :: int
  actor_y :: int
  width_offset :: int
  height_offset :: int
  effect :: blur_effect
  shown :: bool

text \<open>
  The preferences the engine reads: \<^verbatim>\<open>prefs.applications.*\<close>, with
  \<^verbatim>\<open>prefs.applications.BRIGHTNESS\<close> and \<^verbatim>\<open>prefs.applications.SIGMA\<close> as \<open>APP_BRIGHTNESS\<close>
  and \<open>APP_SIGMA\<close>, the global \<^verbatim>\<open>prefs.BRIGHTNESS\<close> and \<^verbatim>\<open>prefs.SIGMA\<close> as
  \<open>GLOBAL_BRIGHTNESS\<close> and \<open>GLOBAL_SIGMA\<close>, \<^verbatim>\<open>prefs.HACKS_LEVEL\<close> and \<^verbatim>\<open>prefs.DEBUG\<close>.
\<close>

record applications_prefs =
  ENABLE_ALL :: bool
  WHITELIST :: "string list"
  BLACKLIST :: "string list"
  CUSTOMIZE :: bool
  APP_BRIGHTNESS :: jsnum
  APP_SIGMA :: int

record preferences =
  applications :: applications_prefs
  GLOBAL_BRIGHTNESS :: jsnum
  GLOBAL_SIGMA :: int
  HACKS_LEVEL :: int
  DEBUG :: bool

text \<open>
  A JavaScript \<^verbatim>\<open>Map\<close> is an association list in insertion order: \<^verbatim>\<open>set\<close> replaces the
  value of a key in place or appends a new key, \<^verbatim>\<open>delete\<close> removes the key.
\<close>

type_synonym ('k, 'v) js_map = "('k \<times> 'v) list"

definition map_has :: "('k, 'v) js_map \<Rightarrow> 'k \<Rightarrow> bool" where
  "map_has m k = (map_of m k \<noteq> None)"

definition map_get :: "('k, 'v) js_map \<Rightarrow> 'k \<Rightarrow> 'v option" where
  "map_get m k = map_of m k"

definition map_set :: "('k, 'v) js_map \<Rightarrow> 'k \<Rightarrow> 'v \<Rightarrow> ('k, 'v) js_map" where
  "map_set m k v = AList.update k v m"

definition map_delete :: "('k, 'v) js_map \<Rightarrow> 'k \<Rightarrow> ('k, 'v) js_map" where
  "map_delete m k = AList.delete k m"

definition map_keys :: "('k, 'v) js_map \<Rightarrow> 'k list" where
  "map_keys m = map fst m"

text \<open>
  The state: the engine's two maps, the preferences, and whether
  \<^verbatim>\<open>global.window_group\<close> is \<^verbatim>\<open>null\<close>. Calls that change none of these (logging, the
  connection of signal handlers, \<^verbatim>\<open>paint_signals\<close>, the insertion and removal of an
  overlay among the children of a window's actor) are not part of the state. A window
  may have no actor: \<^verbatim>\<open>track_new\<close> and \<^verbatim>\<open>create_blur_effect\<close> dereference the actor without
  a test, which raises a \<^verbatim>\<open>TypeError\<close> when it is \<^verbatim>\<open>null\<close>, in both before either map is
  written.
\<close>

record state =
  prefs :: preferences
  window_map :: "(pid, meta_window) js_map"
  blur_actor_map :: "(pid, blur_actor) js_map"
  window_group_null :: bool

datatype error = TypeError

text \<open>
  The state a handler leaves behind: the state it returns, or the state it was given
  when it raises before it has written to it.
\<close>

definition state_after :: "state \<Rightarrow> error + state \<Rightarrow> state" where
  "state_after st r = (case r of Inl e \<Rightarrow> st | Inr st' \<Rightarrow> st')"

section \<open>The hint parser\<close>

text \<open>
  The three patterns of \<^verbatim>\<open>parse_xprop\<close>. The first one is \<^verbatim>\<open>"blur-provider=(.*)"\<close>, the
  marker and the rest of the line. The source writes the second one as the string
  literal \<^verbatim>\<open>"(brightness|b):(default|0?1?\.[0-9]*)"\<close>; in a string literal \<^verbatim>\<open>\.\<close> is the
  character \<^verbatim>\<open>.\<close>, so the pattern compiled is \<^verbatim>\<open>(brightness|b):(default|0?1?.[0-9]*)\<close>,
  where \<^verbatim>\<open>.\<close> is any character but a line terminator. The third one is written
  \<^verbatim>\<open>"(sigma|s):(default|\\d{1,3})"\<close>, which is the pattern \<^verbatim>\<open>(sigma|s):(default|\d{1,3})\<close>.
\<close>

definition marker :: string where
  "marker = ''blur-provider=''"

definition arg_pattern :: regex where
  "arg_pattern = Seq (Lit marker) (Group 1 (Star Any_char))"

definition brightness_pattern :: regex where
  "brightness_pattern =
     Seq (Group 1 (Alt (Lit ''brightness'') (Lit ''b'')))
       (Seq (Lit '':'')
         (Group 2 (Alt (Lit ''default'')
           (Seq (Opt (Lit ''0'')) (Seq (Opt (Lit ''1''))
             (Seq (Class Any_char) (Star Digit_char)))))))"

definition sigma_pattern :: regex where
  "sigma_pattern =
     Seq (Group 1 (Alt (Lit ''sigma'') (Lit ''s'')))
       (Seq (Lit '':'')
         (Group 2 (Alt (Lit ''default'') (Repeat 1 3 Digit_char))))"

text \<open>The default values: the customised ones when \<^verbatim>\<open>CUSTOMIZE\<close> is set, else the global ones.\<close>

definition default_values :: "preferences \<Rightarrow> jsnum \<times> int" where
  "default_values p =
     (if CUSTOMIZE (applications p)
      then (APP_BRIGHTNESS (applications p), APP_SIGMA (applications p))
      else (GLOBAL_BRIGHTNESS p, GLOBAL_SIGMA p))"

text \<open>
  \<^verbatim>\<open>parse_xprop(property)\<close>. In these three patterns every group takes part in every
  match (lemmas \<open>arg_group\<close>, \<open>brightness_group\<close>, \<open>sigma_group\<close>), so the branches for a
  group that is \<^verbatim>\<open>undefined\<close>, and for a sigma field that \<^verbatim>\<open>parseInt\<close> turns into \<^verbatim>\<open>NaN\<close>,
  are never taken: they keep the value at hand.
\<close>

definition parse_xprop :: "preferences \<Rightarrow> string \<Rightarrow> jsnum \<times> int" where
  "parse_xprop p property =
     (let (brightness, sigma) = default_values p in
      case match arg_pattern property of
        None \<Rightarrow> (brightness, sigma)
      | Some arg \<Rightarrow>
          (let arg1 = (case arg 1 of None \<Rightarrow> [] | Some a \<Rightarrow> a);
               maybe_sigma = parseInt arg1
           in if (case maybe_sigma of None \<Rightarrow> False | Some n \<Rightarrow> 0 \<le> n \<and> n \<le> 999)
              then (brightness, the maybe_sigma)
              else
                (let res_b = match brightness_pattern arg1;
                     res_s = match sigma_pattern arg1
                 in ((case res_b of None \<Rightarrow> brightness
                      | Some g \<Rightarrow>
                          (case g 2 of None \<Rightarrow> brightness
                           | Some v \<Rightarrow> if v \<noteq> ''default'' then parseFloat v else brightness)),
                     (case res_s of None \<Rightarrow> sigma
                      | Some g \<Rightarrow>
                          (case g 2 of None \<Rightarrow> sigma
                           | Some v \<Rightarrow>
                               if v \<noteq> ''default''
                               then (case parseInt v of None \<Rightarrow> sigma | Some n \<Rightarrow> n)
                               else sigma))))))"

section \<open>The engine\<close>

text \<open>\<^verbatim>\<open>compute_offset(meta_window)\<close>: the frame rectangle minus the buffer rectangle.\<close>

definition compute_offset :: "meta_window \<Rightarrow> rect" where
  "compute_offset meta_window =
     (let frame = frame_rect meta_window;
          buffer = buffer_rect meta_window
      in \<lparr>rect_x = rect_x frame - rect_x buffer,
          rect_y = rect_y frame - rect_y buffer,
          rect_width = rect_width frame - rect_width buffer,
          rect_height = rect_height frame - rect_height buffer\<rparr>)"

text \<open>\<^verbatim>\<open>create_blur_actor\<close>: a new actor with the two constraints, the position and the effect.\<close>

definition create_blur_actor ::
  "meta_window \<Rightarrow> window_actor option \<Rightarrow> blur_effect \<Rightarrow> blur_actor" where
  "create_blur_actor meta_window window_actor blur_effect =
     (let offset = compute_offset meta_window
      in \<lparr>actor_x = rect_x offset,
          actor_y = rect_y offset,
          width_offset = rect_width offset,
          height_offset = rect_height offset,
          effect = blur_effect,
          shown = True\<rparr>)"

text \<open>\<^verbatim>\<open>update_blur_effect\<close>: overwrite the sigma and the brightness of the actor's effect.\<close>

definition update_blur_effect :: "blur_actor \<Rightarrow> jsnum \<Rightarrow> int \<Rightarrow> blur_actor" where
  "update_blur_effect blur_actor b s =
     blur_actor\<lparr>effect := (effect blur_actor)\<lparr>sigma := s, brightness := b\<rparr>\<rparr>"

text \<open>
  \<^verbatim>\<open>remove_blur(pid)\<close>: nothing when \<^verbatim>\<open>global.window_group\<close> is \<^verbatim>\<open>null\<close>; else, when the
  window map has the token, delete it there and, when the binding map has it, there too.
\<close>

definition remove_blur :: "state \<Rightarrow> pid \<Rightarrow> state" where
  "remove_blur st pid =
     (if window_group_null st then st
      else
        (case map_get (window_map st) pid of
           None \<Rightarrow> st
         | Some meta_window \<Rightarrow>
             (let st1 = st\<lparr>window_map := map_delete (window_map st) pid\<rparr>
              in case map_get (blur_actor_map st1) pid of
                   None \<Rightarrow> st1
                 | Some blur_actor \<Rightarrow>
                     st1\<lparr>blur_actor_map := map_delete (blur_actor_map st1) pid\<rparr>)))"

text \<open>
  \<^verbatim>\<open>create_blur_effect\<close>: build the effect and the actor, insert the actor under the
  window's actor (\<^verbatim>\<open>window_actor.insert_child_at_index\<close>, a \<^verbatim>\<open>TypeError\<close> when the window
  has no actor), then register the actor and the window under the token, and hide the
  actor when the window's actor is not visible.
\<close>

definition create_blur_effect ::
  "state \<Rightarrow> pid \<Rightarrow> window_actor option \<Rightarrow> meta_window \<Rightarrow> jsnum \<Rightarrow> int \<Rightarrow> error + state"
  where
  "create_blur_effect st pid window_actor meta_window b s =
     (let blur_effect = \<lparr>sigma = s, brightness = b\<rparr>;
          blur_actor = create_blur_actor meta_window window_actor blur_effect
      in case window_actor of
           None \<Rightarrow> Inl TypeError
         | Some actor \<Rightarrow>
             (let st1 = st\<lparr>blur_actor_map := map_set (blur_actor_map st) pid blur_actor\<rparr>;
                  st2 = st1\<lparr>window_map := map_set (window_map st1) pid meta_window\<rparr>
              in if \<not> visible actor
                 then Inr (st2\<lparr>blur_actor_map :=
                                map_set (blur_actor_map st2) pid (blur_actor\<lparr>shown := False\<rparr>)\<rparr>)
                 else Inr st2))"

text \<open>
  \<^verbatim>\<open>update_blur\<close>: on a bound token remove (sigma 0) or update; on an unbound one create
  unless sigma is 0.
\<close>

definition update_blur ::
  "state \<Rightarrow> pid \<Rightarrow> window_actor option \<Rightarrow> meta_window \<Rightarrow> jsnum \<Rightarrow> int \<Rightarrow> error + state"
  where
  "update_blur st pid window_actor meta_window b s =
     (if map_has (blur_actor_map st) pid then
        (if s = 0 then Inr (remove_blur st pid)
         else
           (case map_get (blur_actor_map st) pid of
              None \<Rightarrow> Inr st
            | Some blur_actor \<Rightarrow>
                Inr (st\<lparr>blur_actor_map :=
                          map_set (blur_actor_map st) pid (update_blur_effect blur_actor b s)\<rparr>)))
      else if s \<noteq> 0 then create_blur_effect st pid window_actor meta_window b s
      else Inr st)"

text \<open>\<^verbatim>\<open>array.includes(x)\<close> on an array of strings; \<^verbatim>\<open>null\<close> is in none.\<close>

definition array_includes :: "string list \<Rightarrow> string option \<Rightarrow> bool" where
  "array_includes xs v = (case v of None \<Rightarrow> False | Some c \<Rightarrow> c \<in> set xs)"

text \<open>\<^verbatim>\<open>check_blur\<close>: the listed windows first, then the hint, else remove a binding.\<close>

definition check_blur ::
  "state \<Rightarrow> pid \<Rightarrow> window_actor option \<Rightarrow> meta_window \<Rightarrow> error + state" where
  "check_blur st pid window_actor meta_window =
     (let mutter_hint = mutter_hints meta_window;
          window_wm_class = wm_class meta_window;
          enable_all = ENABLE_ALL (applications (prefs st));
          whitelist = WHITELIST (applications (prefs st));
          blacklist = BLACKLIST (applications (prefs st))
      in if window_wm_class \<noteq> Some []
            \<and> ((enable_all \<and> \<not> array_includes blacklist window_wm_class)
                 \<or> (\<not> enable_all \<and> array_includes whitelist window_wm_class))
         then
           (let (b, s) = default_values (prefs st)
            in update_blur st pid window_actor meta_window b s)
         else if (case mutter_hint of None \<Rightarrow> False
                  | Some h \<Rightarrow> sublist ''blur-provider'' h)
         then
           (let (b, s) = parse_xprop (prefs st) (the mutter_hint)
            in update_blur st pid window_actor meta_window b s)
         else if map_has (blur_actor_map st) pid then Inr (remove_blur st pid)
         else Inr st)"

text \<open>
  \<^verbatim>\<open>track_new\<close>: tag the window's actor and the window with the token (a \<^verbatim>\<open>TypeError\<close>
  when the window has no actor), connect the handlers below, and check the window. The
  token is the argument \<open>pid\<close>.
\<close>

definition track_new ::
  "state \<Rightarrow> pid \<Rightarrow> window_actor option \<Rightarrow> meta_window \<Rightarrow> error + state" where
  "track_new st pid window_actor meta_window =
     (case window_actor of
        None \<Rightarrow> Inl TypeError
      | Some actor \<Rightarrow> check_blur st pid window_actor meta_window)"

text \<open>The handler of \<^verbatim>\<open>destroy\<close> that \<^verbatim>\<open>track_new\<close> connects.\<close>

definition on_destroy :: "state \<Rightarrow> pid \<Rightarrow> state" where
  "on_destroy st pid =
     (let st1 = (if map_has (blur_actor_map st) pid then remove_blur st pid else st)
      in st1\<lparr>window_map := map_delete (window_map st1) pid\<rparr>)"

text \<open>
  The handler of \<^verbatim>\<open>notify::mutter-hints\<close> and \<^verbatim>\<open>notify::wm-class\<close>: it passes what
  \<^verbatim>\<open>get_compositor_private()\<close> returns, untested, to \<^verbatim>\<open>check_blur\<close>.
\<close>

definition on_notify :: "state \<Rightarrow> pid \<Rightarrow> meta_window \<Rightarrow> error + state" where
  "on_notify st pid meta_window =
     check_blur st pid (compositor_private meta_window) meta_window"

text \<open>The handler of \<^verbatim>\<open>size-changed\<close>.\<close>

definition on_size_changed :: "state \<Rightarrow> pid \<Rightarrow> meta_window \<Rightarrow> state" where
  "on_size_changed st pid meta_window =
     (if map_has (blur_actor_map st) pid then
        (let offset = compute_offset meta_window
         in case map_get (blur_actor_map st) pid of
              None \<Rightarrow> st
            | Some blur_actor \<Rightarrow>
                st\<lparr>blur_actor_map :=
                     map_set (blur_actor_map st) pid
                       (blur_actor\<lparr>actor_x := rect_x offset,
                                   actor_y := rect_y offset,
                                   width_offset := rect_width offset,
                                   height_offset := rect_height offset\<rparr>)\<rparr>)
      else st)"

text \<open>
  The handler of \<^verbatim>\<open>notify::visible\<close> that \<^verbatim>\<open>create_blur_effect\<close> connects: it calls
  \<^verbatim>\<open>show()\<close> or \<^verbatim>\<open>hide()\<close> on \<^verbatim>\<open>blur_actor_map.get(pid)\<close>, a \<^verbatim>\<open>TypeError\<close> when the token
  is not bound.
\<close>

definition on_notify_visible :: "state \<Rightarrow> pid \<Rightarrow> window_actor \<Rightarrow> error + state" where
  "on_notify_visible st pid window_actor =
     (case map_get (blur_actor_map st) pid of
        None \<Rightarrow> Inl TypeError
      | Some blur_actor \<Rightarrow>
          Inr (st\<lparr>blur_actor_map :=
                    map_set (blur_actor_map st) pid
                      (blur_actor\<lparr>shown := visible window_actor\<rparr>)\<rparr>))"

text \<open>
  \<^verbatim>\<open>update_all_windows\<close>: remove the blur of every token of the window map, then track
  every window of every workspace. The argument lists, workspace by workspace, the
  windows of \<^verbatim>\<open>list_windows()\<close>, each with the token \<^verbatim>\<open>track_new\<close> draws for it. A callback
  of \<^verbatim>\<open>forEach\<close> here deletes no key but its own, so the keys visited are the keys at the
  start. A \<^verbatim>\<open>TypeError\<close> of \<^verbatim>\<open>track_new\<close> ends both loops: the result is the error, if any,
  and the state as the windows tracked until then left it.
\<close>

definition remove_all :: "state \<Rightarrow> pid list \<Rightarrow> state" where
  "remove_all st pids = foldl remove_blur st pids"

fun track_windows :: "state \<Rightarrow> (pid \<times> meta_window) list \<Rightarrow> error option \<times> state" where
  "track_windows st [] = (None, st)"
| "track_windows st ((pid, meta_window) # windows) =
     (case track_new st pid (compositor_private meta_window) meta_window of
        Inl e \<Rightarrow> (Some e, st)
      | Inr st' \<Rightarrow> track_windows st' windows)"

fun track_workspaces :: "state \<Rightarrow> (pid \<times> meta_window) list list \<Rightarrow> error option \<times> state" where
  "track_workspaces st [] = (None, st)"
| "track_workspaces st (windows # workspaces) =
     (case fst (track_windows st windows) of
        Some e \<Rightarrow> (Some e, snd (track_windows st windows))
      | None \<Rightarrow> track_workspaces (snd (track_windows st windows)) workspaces)"

definition update_all_windows ::
  "state \<Rightarrow> (pid \<times> meta_window) list list \<Rightarrow> error option \<times> state" where
  "update_all_windows st workspaces =
     track_workspaces (remove_all st (map_keys (window_map st))) workspaces"

text \<open>\<^verbatim>\<open>disable\<close>: remove the blur of every token of the binding map.\<close>

definition disable :: "state \<Rightarrow> state" where
  "disable st = remove_all st (map_keys (blur_actor_map st))"

text \<open>\<^verbatim>\<open>set_sigma\<close>, \<^verbatim>\<open>set_brightness\<close>: overwrite the parameter of every bound effect.\<close>

definition set_sigma :: "state \<Rightarrow> int \<Rightarrow> state" where
  "set_sigma st s =
     st\<lparr>blur_actor_map :=
          map (\<lambda>(pid, actor). (pid, actor\<lparr>effect := (effect actor)\<lparr>sigma := s\<rparr>\<rparr>))
            (blur_actor_map st)\<rparr>"

definition set_brightness :: "state \<Rightarrow> jsnum \<Rightarrow> state" where
  "set_brightness st b =
     st\<lparr>blur_actor_map :=
          map (\<lambda>(pid, actor). (pid, actor\<lparr>effect := (effect actor)\<lparr>brightness := b\<rparr>\<rparr>))
            (blur_actor_map st)\<rparr>"

text \<open>The state a new \<^verbatim>\<open>ApplicationsBlur\<close> has: two empty maps.\<close>

definition init :: "preferences \<Rightarrow> state" where
  "init p = \<lparr>prefs = p, window_map = [], blur_actor_map = [], window_group_null = False\<rparr>"

section \<open>Decisions, events and invariants\<close>

text \<open>
  The decision \<^verbatim>\<open>check_blur\<close> takes: \<open>Enabled b s\<close> when it calls \<^verbatim>\<open>update_blur\<close> with the
  brightness \<open>b\<close> and the sigma \<open>s\<close> (first and second branch), \<open>Disabled\<close> in the last
  branch. Lemma \<open>check_blur_decision\<close> below states \<^verbatim>\<open>check_blur\<close> through it.
\<close>

datatype decision = Enabled jsnum int | Disabled

definition decision_of :: "preferences \<Rightarrow> meta_window \<Rightarrow> decision" where
  "decision_of p meta_window =
     (if wm_class meta_window \<noteq> Some []
         \<and> ((ENABLE_ALL (applications p)
               \<and> \<not> array_includes (BLACKLIST (applications p)) (wm_class meta_window))
              \<or> (\<not> ENABLE_ALL (applications p)
                  \<and> array_includes (WHITELIST (applications p)) (wm_class meta_window)))
      then Enabled (fst (default_values p)) (snd (default_values p))
      else if (case mutter_hints meta_window of None \<Rightarrow> False
               | Some h \<Rightarrow> sublist ''blur-provider'' h)
      then Enabled (fst (parse_xprop p (the (mutter_hints meta_window))))
             (snd (parse_xprop p (the (mutter_hints meta_window))))
      else Disabled)"

definition enabled_nonzero :: "decision option \<Rightarrow> bool" where
  "enabled_nonzero d =
     (case d of None \<Rightarrow> False | Some Disabled \<Rightarrow> False | Some (Enabled b s) \<Rightarrow> s \<noteq> 0)"

text \<open>Every bound token is a key of the window map.\<close>

definition bindings_tracked :: "state \<Rightarrow> bool" where
  "bindings_tracked st = (set (map_keys (blur_actor_map st)) \<subseteq> set (map_keys (window_map st)))"

text \<open>The token is bound and the sigma of its effect is 0.\<close>

definition sigma_zero_at :: "state \<Rightarrow> pid \<Rightarrow> bool" where
  "sigma_zero_at st pid =
     (case map_get (blur_actor_map st) pid of
        None \<Rightarrow> False
      | Some actor \<Rightarrow> sigma (effect actor) = 0)"

text \<open>
  The events: those the engine handles, each with what the compositor passes to the
  handler, and two changes of what the engine reads, the preferences and
  \<^verbatim>\<open>global.window_group\<close> (\<open>True\<close> when it becomes \<^verbatim>\<open>null\<close>). \<open>handle\<close> gives the state
  after an event; an exception in a handler leaves the state as it was at the raise.
\<close>

datatype event =
    Window_created pid meta_window
  | Property_changed pid meta_window
  | Size_changed pid meta_window
  | Visible_changed pid window_actor
  | Destroyed pid
  | Lists_changed "(pid \<times> meta_window) list list"
  | Sigma_changed int
  | Brightness_changed jsnum
  | Prefs_changed preferences
  | Window_group_changed bool

fun handle :: "state \<Rightarrow> event \<Rightarrow> state" where
  "handle st (Window_created pid meta_window) =
     state_after st (track_new st pid (compositor_private meta_window) meta_window)"
| "handle st (Property_changed pid meta_window) = state_after st (on_notify st pid meta_window)"
| "handle st (Size_changed pid meta_window) = on_size_changed st pid meta_window"
| "handle st (Visible_changed pid window_actor) =
     state_after st (on_notify_visible st pid window_actor)"
| "handle st (Destroyed pid) = on_destroy st pid"
| "handle st (Lists_changed workspaces) = snd (update_all_windows st workspaces)"
| "handle st (Sigma_changed s) = set_sigma st s"
| "handle st (Brightness_changed b) = set_brightness st b"
| "handle st (Prefs_changed p) = st\<lparr>prefs := p\<rparr>"
| "handle st (Window_group_changed is_null) = st\<lparr>window_group_null := is_null\<rparr>"

text \<open>
  Beside the state a run keeps, for every token, the decision of the latest
  \<^verbatim>\<open>check_blur\<close> for it, taken under the preferences of its time. \<^verbatim>\<open>track_new\<close> reaches
  \<^verbatim>\<open>check_blur\<close> for a window that has an actor; a rescan reaches it for the windows
  before the first one without an actor. The destruction of a window and a rescan, which
  drop tokens without a decision, drop the decisions of the tokens they drop.
\<close>

type_synonym decisions = "pid \<Rightarrow> decision option"

definition record_all :: "preferences \<Rightarrow> decisions \<Rightarrow> (pid \<times> meta_window) list \<Rightarrow> decisions" where
  "record_all p g windows =
     foldl (\<lambda>g (pid, meta_window). g(pid \<mapsto> decision_of p meta_window)) g windows"

definition has_actor :: "pid \<times> meta_window \<Rightarrow> bool" where
  "has_actor w = (compositor_private (snd w) \<noteq> None)"

definition tracked :: "(pid \<times> meta_window) list list \<Rightarrow> (pid \<times> meta_window) list" where
  "tracked workspaces = takeWhile has_actor (concat workspaces)"

fun latest :: "state \<Rightarrow> decisions \<Rightarrow> event \<Rightarrow> decisions" where
  "latest st g (Window_created pid meta_window) =
     (case compositor_private meta_window of
        None \<Rightarrow> g
      | Some actor \<Rightarrow> g(pid \<mapsto> decision_of (prefs st) meta_window))"
| "latest st g (Property_changed pid meta_window) = g(pid \<mapsto> decision_of (prefs st) meta_window)"
| "latest st g (Destroyed pid) = g(pid := None)"
| "latest st g (Lists_changed workspaces) =
     record_all (prefs st) Map.empty (tracked workspaces)"
| "latest st g _ = g"

definition step :: "state \<times> decisions \<Rightarrow> event \<Rightarrow> state \<times> decisions" where
  "step sg e = (handle (fst sg) e, latest (fst sg) (snd sg) e)"

definition run :: "state \<times> decisions \<Rightarrow> event list \<Rightarrow> state \<times> decisions" where
  "run sg es = foldl step sg es"

text \<open>The bound tokens are those whose latest decision is \<open>Enabled\<close> with a sigma other than 0.\<close>

definition agrees :: "state \<Rightarrow> decisions \<Rightarrow> bool" where
  "agrees st g = (\<forall>pid. map_has (blur_actor_map st) pid = enabled_nonzero (g pid))"

text \<open>
  Two conditions on an event: it does not make \<^verbatim>\<open>global.window_group\<close> \<^verbatim>\<open>null\<close>; and, when
  it is a change of property, the window has an actor.
\<close>

fun container_kept :: "event \<Rightarrow> bool" where
  "container_kept (Window_group_changed is_null) = (\<not> is_null)"
| "container_kept _ = True"

fun actor_found :: "event \<Rightarrow> bool" where
  "actor_found (Property_changed pid meta_window) = (compositor_private meta_window \<noteq> None)"
| "actor_found _ = True"

section \<open>Example inputs\<close>

definition prefs_whitelist :: preferences where
  "prefs_whitelist =
     \<lparr>applications =
        \<lparr>ENABLE_ALL = False, WHITELIST = [''Foo''], BLACKLIST = [], CUSTOMIZE = False,
         APP_BRIGHTNESS = Num 1, APP_SIGMA = 30\<rparr>,
      GLOBAL_BRIGHTNESS = Num (9 / 10), GLOBAL_SIGMA = 40, HACKS_LEVEL = 0, DEBUG = False\<rparr>"

definition prefs_blacklist :: preferences where
  "prefs_blacklist =
     \<lparr>applications =
        \<lparr>ENABLE_ALL = True, WHITELIST = [], BLACKLIST = [''Foo''], CUSTOMIZE = False,
         APP_BRIGHTNESS = Num 1, APP_SIGMA = 30\<rparr>,
      GLOBAL_BRIGHTNESS = Num (9 / 10), GLOBAL_SIGMA = 40, HACKS_LEVEL = 0, DEBUG = False\<rparr>"

definition example_window :: "string option \<Rightarrow> string option \<Rightarrow> meta_window" where
  "example_window cls hint =
     \<lparr>mutter_hints = hint, wm_class = cls,
      frame_rect = \<lparr>rect_x = 10, rect_y = 10, rect_width = 100, rect_height = 50\<rparr>,
      buffer_rect = \<lparr>rect_x = 0, rect_y = 0, rect_width = 120, rect_height = 70\<rparr>,
      compositor_private = Some \<lparr>visible = True\<rparr>\<rparr>"

text \<open>A state with one blurred window, the token \<^verbatim>\<open>"1"\<close>, of class \<^verbatim>\<open>Foo\<close>.\<close>

definition bound_state :: state where
  "bound_state =
     state_after (init prefs_whitelist)
       (track_new (init prefs_whitelist) ''1'' (Some \<lparr>visible = True\<rparr>)
          (example_window (Some ''Foo'') None))"

section \<open>Lemmas on the maps and on \<^verbatim>\<open>remove_blur\<close>\<close>

lemma map_has_set [simp]: "map_has (map_set m k v) k' = (k' = k \<or> map_has m k')"
  by (simp add: map_has_def map_set_def update_conv')

lemma map_has_delete [simp]: "map_has (map_delete m k) k' = (k' \<noteq> k \<and> map_has m k')"
  by (simp add: map_has_def map_delete_def delete_conv')

lemma map_get_set [simp]: "map_get (map_set m k v) k' = (if k' = k then Some v else map_get m k')"
  by (simp add: map_get_def map_set_def update_conv')

lemma map_get_delete [simp]: "map_get (map_delete m k) k' = (if k' = k then None else map_get m k')"
  by (simp add: map_get_def map_delete_def delete_conv')

lemma map_has_get: "map_has m k = (map_get m k \<noteq> None)"
  by (simp add: map_has_def map_get_def)

lemma map_has_keys: "map_has m k = (k \<in> set (map_keys m))"
  by (simp add: map_has_def map_keys_def map_of_eq_None_iff)

lemma map_delete_absent: "\<not> map_has m k \<Longrightarrow> map_delete m k = m"
  by (simp add: map_has_keys map_keys_def map_delete_def)

lemma remove_blur_null: "window_group_null st \<Longrightarrow> remove_blur st pid = st"
  by (simp add: remove_blur_def)

lemma remove_blur_untracked: "\<not> map_has (window_map st) pid \<Longrightarrow> remove_blur st pid = st"
  by (simp add: remove_blur_def map_has_get)

lemma remove_blur_window_map:
  "window_map (remove_blur st pid) =
     (if window_group_null st then window_map st else map_delete (window_map st) pid)"
  by (auto simp: remove_blur_def Let_def map_delete_absent map_has_get split: option.splits)

lemma remove_blur_blur_actor_map:
  "blur_actor_map (remove_blur st pid) =
     (if window_group_null st \<or> \<not> map_has (window_map st) pid then blur_actor_map st
      else map_delete (blur_actor_map st) pid)"
  by (auto simp: remove_blur_def Let_def map_delete_absent map_has_get split: option.splits)

lemma remove_blur_prefs [simp]: "prefs (remove_blur st pid) = prefs st"
  by (simp add: remove_blur_def Let_def split: option.splits)

lemma remove_blur_window_group [simp]:
  "window_group_null (remove_blur st pid) = window_group_null st"
  by (simp add: remove_blur_def Let_def split: option.splits)

lemma remove_blur_idem: "remove_blur (remove_blur st pid) pid = remove_blur st pid"
proof (cases "window_group_null st \<or> \<not> map_has (window_map st) pid")
  case True
  then show ?thesis by (auto simp: remove_blur_null remove_blur_untracked)
next
  case False
  then have "\<not> map_has (window_map (remove_blur st pid)) pid"
    by (simp add: remove_blur_window_map)
  then show ?thesis by (rule remove_blur_untracked)
qed

section \<open>The offset calculator, the propagation and the removal\<close>

lemma bound_state_eq:
  "bound_state =
     \<lparr>prefs = prefs_whitelist,
      window_map = [(''1'', example_window (Some ''Foo'') None)],
      blur_actor_map =
        [(''1'', \<lparr>actor_x = 10, actor_y = 10, width_offset = - 20, height_offset = - 20,
                 effect = \<lparr>sigma = 40, brightness = Num (9 / 10)\<rparr>, shown = True\<rparr>)],
      window_group_null = False\<rparr>"
  by (simp add: bound_state_def state_after_def track_new_def check_blur_def init_def
      prefs_whitelist_def example_window_def array_includes_def default_values_def
      update_blur_def map_has_def create_blur_effect_def create_blur_actor_def
      compute_offset_def map_set_def Let_def)

text \<open>
  Claim C8. \<^verbatim>\<open>compute_offset\<close> returns, for every window, the frame rectangle minus the
  buffer rectangle, field by field; for the frame (10, 10, 100, 50) and the buffer
  (0, 0, 120, 70) that is (10, 10, -20, -20). It reads nothing but the two rectangles and,
  as a function of HOL, it is total.
\<close>

theorem compute_offset_is_frame_minus_buffer:
  "compute_offset meta_window =
     \<lparr>rect_x = rect_x (frame_rect meta_window) - rect_x (buffer_rect meta_window),
      rect_y = rect_y (frame_rect meta_window) - rect_y (buffer_rect meta_window),
      rect_width = rect_width (frame_rect meta_window) - rect_width (buffer_rect meta_window),
      rect_height = rect_height (frame_rect meta_window) - rect_height (buffer_rect meta_window)\<rparr>
   \<and> compute_offset
        (meta_window
           \<lparr>frame_rect := \<lparr>rect_x = 10, rect_y = 10, rect_width = 100, rect_height = 50\<rparr>,
            buffer_rect := \<lparr>rect_x = 0, rect_y = 0, rect_width = 120, rect_height = 70\<rparr>\<rparr>)
       = \<lparr>rect_x = 10, rect_y = 10, rect_width = - 20, rect_height = - 20\<rparr>"
  by (simp add: compute_offset_def Let_def)

lemma map_get_map_values:
  "map_get (map (\<lambda>(k, v). (k, f v)) m) k = map_option f (map_get m k)"
  by (induction m) (auto simp: map_get_def)

lemma map_keys_map_values: "map_keys (map (\<lambda>(k, v). (k, f v)) m) = map_keys m"
  by (induction m) (auto simp: map_keys_def)

text \<open>
  Claim C7. \<^verbatim>\<open>set_sigma(v)\<close> leaves under every token the actor it had, with the sigma of
  its effect overwritten by \<open>v\<close>, whatever it was, so that every bound effect has sigma
  \<open>v\<close>; \<^verbatim>\<open>set_brightness(b)\<close> does the same with the brightness. The keys of the binding
  map, the window map, the preferences and \<^verbatim>\<open>global.window_group\<close> are as before.
\<close>

theorem set_sigma_set_brightness_overwrite:
  "map_get (blur_actor_map (set_sigma st v)) pid
     = map_option (\<lambda>actor. actor\<lparr>effect := (effect actor)\<lparr>sigma := v\<rparr>\<rparr>)
         (map_get (blur_actor_map st) pid)
   \<and> list_all (\<lambda>(pid, actor). sigma (effect actor) = v) (blur_actor_map (set_sigma st v))
   \<and> map_keys (blur_actor_map (set_sigma st v)) = map_keys (blur_actor_map st)
   \<and> window_map (set_sigma st v) = window_map st
   \<and> prefs (set_sigma st v) = prefs st
   \<and> window_group_null (set_sigma st v) = window_group_null st
   \<and> map_get (blur_actor_map (set_brightness st b)) pid
     = map_option (\<lambda>actor. actor\<lparr>effect := (effect actor)\<lparr>brightness := b\<rparr>\<rparr>)
         (map_get (blur_actor_map st) pid)
   \<and> list_all (\<lambda>(pid, actor). brightness (effect actor) = b)
       (blur_actor_map (set_brightness st b))
   \<and> map_keys (blur_actor_map (set_brightness st b)) = map_keys (blur_actor_map st)
   \<and> window_map (set_brightness st b) = window_map st
   \<and> prefs (set_brightness st b) = prefs st
   \<and> window_group_null (set_brightness st b) = window_group_null st"
  by (simp add: set_sigma_def set_brightness_def map_get_map_values map_keys_map_values
      list_all_iff split_beta)

text \<open>
  Claim C9. For a token that is in neither map, \<^verbatim>\<open>remove_blur\<close> returns the state it was
  given, and removing twice is removing once. No statement of \<^verbatim>\<open>remove_blur\<close> can raise:
  what it reads of an absent key is tested before use, so its model has no error branch.
\<close>

theorem remove_blur_unbound_is_noop:
  assumes "\<not> map_has (window_map st) pid" and "\<not> map_has (blur_actor_map st) pid"
  shows "remove_blur st pid = st \<and> remove_blur (remove_blur st pid) pid = remove_blur st pid"
  using assms(1) by (simp add: remove_blur_untracked)

theorem remove_blur_unbound_is_noop_witness:
  "\<not> map_has (window_map bound_state) ''2'' \<and> \<not> map_has (blur_actor_map bound_state) ''2''
   \<and> remove_blur bound_state ''2'' = bound_state
   \<and> remove_blur (remove_blur bound_state ''2'') ''2'' = remove_blur bound_state ''2''"
proof -
  have a: "\<not> map_has (window_map bound_state) ''2''"
    by (simp add: bound_state_eq map_has_def)
  have b: "\<not> map_has (blur_actor_map bound_state) ''2''"
    by (simp add: bound_state_eq map_has_def)
  from remove_blur_unbound_is_noop [OF a b] a b show ?thesis by simp
qed

text \<open>
  Claim C10. While \<^verbatim>\<open>global.window_group\<close> is \<^verbatim>\<open>null\<close>, \<^verbatim>\<open>remove_blur\<close> returns the state
  it was given; the handler of \<^verbatim>\<open>destroy\<close> then still deletes the token from the window
  map and leaves the binding map as it was. The witness is a bound window destroyed in
  that state: the window map ends empty, the binding map keeps the token.
\<close>

theorem remove_blur_null_window_group:
  assumes "window_group_null st"
  shows "remove_blur st pid = st
   \<and> \<not> map_has (window_map (on_destroy st pid)) pid
   \<and> blur_actor_map (on_destroy st pid) = blur_actor_map st"
  using assms by (simp add: on_destroy_def remove_blur_null Let_def)

theorem remove_blur_null_window_group_witness:
  "window_group_null (bound_state\<lparr>window_group_null := True\<rparr>)
   \<and> remove_blur (bound_state\<lparr>window_group_null := True\<rparr>) ''1''
       = bound_state\<lparr>window_group_null := True\<rparr>
   \<and> map_keys (window_map (on_destroy (bound_state\<lparr>window_group_null := True\<rparr>) ''1'')) = []
   \<and> map_keys (blur_actor_map (on_destroy (bound_state\<lparr>window_group_null := True\<rparr>) ''1''))
       = [''1'']"
proof -
  have a: "window_group_null (bound_state\<lparr>window_group_null := True\<rparr>)" by simp
  have w: "window_map (on_destroy (bound_state\<lparr>window_group_null := True\<rparr>) ''1'') = []"
    by (simp add: on_destroy_def remove_blur_null Let_def bound_state_eq map_delete_def
        AList.delete_eq)
  from remove_blur_null_window_group [OF a, of "''1''"] a w show ?thesis
    by (simp add: bound_state_eq map_keys_def)
qed

section \<open>What the handlers do to the two maps\<close>

lemma check_blur_decision:
  "check_blur st pid window_actor meta_window =
     (case decision_of (prefs st) meta_window of
        Enabled b s \<Rightarrow> update_blur st pid window_actor meta_window b s
      | Disabled \<Rightarrow> Inr (if map_has (blur_actor_map st) pid then remove_blur st pid else st))"
  by (auto simp: check_blur_def decision_of_def Let_def split_beta)

lemma bindings_tracked_iff:
  "bindings_tracked st = (\<forall>q. map_has (blur_actor_map st) q \<longrightarrow> map_has (window_map st) q)"
  by (auto simp: bindings_tracked_def map_has_keys)

lemma remove_blur_has_window:
  "map_has (window_map (remove_blur st pid)) q =
     (map_has (window_map st) q \<and> (window_group_null st \<or> q \<noteq> pid))"
  by (auto simp: remove_blur_window_map)

lemma remove_blur_has_blur:
  "map_has (blur_actor_map (remove_blur st pid)) q =
     (map_has (blur_actor_map st) q
      \<and> (window_group_null st \<or> \<not> map_has (window_map st) pid \<or> q \<noteq> pid))"
  by (auto simp: remove_blur_blur_actor_map)

lemma remove_blur_tracked: "bindings_tracked st \<Longrightarrow> bindings_tracked (remove_blur st pid)"
  by (auto simp: bindings_tracked_iff remove_blur_has_window remove_blur_has_blur)

lemma remove_blur_get_other:
  "q \<noteq> pid \<Longrightarrow> map_get (blur_actor_map (remove_blur st pid)) q = map_get (blur_actor_map st) q"
  by (simp add: remove_blur_blur_actor_map)

lemma remove_blur_zero:
  "sigma_zero_at (remove_blur st pid) q \<Longrightarrow> sigma_zero_at st q"
  by (auto simp: sigma_zero_at_def remove_blur_blur_actor_map split: if_splits option.splits)

lemma create_blur_effect_None: "create_blur_effect st pid None mw b s = Inl TypeError"
  by (simp add: create_blur_effect_def)

lemma create_blur_effect_Inl: "create_blur_effect st pid wa mw b s = Inl e \<Longrightarrow> wa = None"
  by (auto simp: create_blur_effect_def Let_def split: option.splits if_splits)

lemma create_blur_effect_Inr:
  assumes "create_blur_effect st pid wa mw b s = Inr st'"
  shows "map_has (blur_actor_map st') q = (q = pid \<or> map_has (blur_actor_map st) q)"
    and "map_has (window_map st') q = (q = pid \<or> map_has (window_map st) q)"
    and "q \<noteq> pid \<Longrightarrow> map_get (blur_actor_map st') q = map_get (blur_actor_map st) q"
    and "\<exists>actor. map_get (blur_actor_map st') pid = Some actor \<and> sigma (effect actor) = s"
    and "prefs st' = prefs st"
    and "window_group_null st' = window_group_null st"
  using assms
  by (auto simp: create_blur_effect_def create_blur_actor_def Let_def
      split: option.splits if_splits)

lemma update_blur_Inl:
  "update_blur st pid wa mw b s = Inl e \<Longrightarrow>
     \<not> map_has (blur_actor_map st) pid \<and> s \<noteq> 0 \<and> wa = None"
  by (auto simp: update_blur_def dest: create_blur_effect_Inl split: if_splits option.splits)

lemma update_blur_frame:
  assumes "update_blur st pid wa mw b s = Inr st'"
  shows "prefs st' = prefs st" and "window_group_null st' = window_group_null st"
  using assms
  by (auto simp: update_blur_def create_blur_effect_Inr(5,6) split: if_splits option.splits)

lemma update_blur_has_window:
  assumes "update_blur st pid wa mw b s = Inr st'"
  shows "map_has (window_map st') q =
     (if map_has (blur_actor_map st) pid
      then (if s = 0 then map_has (window_map st) q \<and> (window_group_null st \<or> q \<noteq> pid)
            else map_has (window_map st) q)
      else (if s \<noteq> 0 then q = pid \<or> map_has (window_map st) q else map_has (window_map st) q))"
  using assms
  by (auto simp: update_blur_def remove_blur_has_window create_blur_effect_Inr(2)
      split: option.splits if_splits)

lemma update_blur_has_blur:
  assumes "update_blur st pid wa mw b s = Inr st'"
  shows "map_has (blur_actor_map st') q =
     (if map_has (blur_actor_map st) pid
      then (if s = 0
            then map_has (blur_actor_map st) q
                 \<and> (window_group_null st \<or> \<not> map_has (window_map st) pid \<or> q \<noteq> pid)
            else map_has (blur_actor_map st) q)
      else (if s \<noteq> 0 then q = pid \<or> map_has (blur_actor_map st) q
            else map_has (blur_actor_map st) q))"
proof (cases "map_get (blur_actor_map st) pid")
  case None
  then have "\<not> map_has (blur_actor_map st) pid" by (simp add: map_has_get)
  then show ?thesis
    using assms by (auto simp: update_blur_def create_blur_effect_Inr(1) split: if_splits)
next
  case (Some a)
  then have "map_has (blur_actor_map st) pid" by (simp add: map_has_get)
  with Some show ?thesis
    using assms by (auto simp: update_blur_def remove_blur_has_blur split: if_splits)
qed

lemma update_blur_tracked:
  assumes "update_blur st pid wa mw b s = Inr st'" and "bindings_tracked st"
  shows "bindings_tracked st'"
  using assms(2)
  by (auto simp: bindings_tracked_iff update_blur_has_blur [OF assms(1)]
      update_blur_has_window [OF assms(1)] split: if_splits)

lemma update_blur_get_other:
  assumes "update_blur st pid wa mw b s = Inr st'" and "q \<noteq> pid"
  shows "map_get (blur_actor_map st') q = map_get (blur_actor_map st) q"
  using assms
  by (auto simp: update_blur_def remove_blur_get_other create_blur_effect_Inr(3)
      split: if_splits option.splits)

lemma update_blur_zero:
  assumes "update_blur st pid wa mw b s = Inr st'" and "sigma_zero_at st' q"
  shows "sigma_zero_at st q"
proof (cases "q = pid")
  case False
  with assms show ?thesis
    by (simp add: sigma_zero_at_def update_blur_get_other [OF assms(1)])
next
  case True
  show ?thesis
  proof (cases "s = 0")
    case True
    with assms show ?thesis
      by (auto simp: update_blur_def sigma_zero_at_def map_has_get
          dest: remove_blur_zero [unfolded sigma_zero_at_def] split: if_splits)
  next
    case False
    with assms \<open>q = pid\<close> show ?thesis
      by (auto simp: update_blur_def sigma_zero_at_def update_blur_effect_def
          dest: create_blur_effect_Inr(4) split: if_splits option.splits)
  qed
qed

lemma check_blur_completes:
  "wa \<noteq> None \<Longrightarrow> \<exists>st'. check_blur st pid wa mw = Inr st'"
proof (cases "check_blur st pid wa mw")
  case (Inl e)
  moreover assume "wa \<noteq> None"
  ultimately show ?thesis
    by (auto simp: check_blur_decision dest: update_blur_Inl split: decision.splits)
next
  case (Inr st')
  then show ?thesis by blast
qed

lemma check_blur_frame:
  assumes "check_blur st pid wa mw = Inr st'"
  shows "prefs st' = prefs st" and "window_group_null st' = window_group_null st"
  using assms
  by (auto simp: check_blur_decision update_blur_frame split: decision.splits if_splits)

lemma check_blur_tracked:
  assumes "check_blur st pid wa mw = Inr st'" and "bindings_tracked st"
  shows "bindings_tracked st'"
  using assms
  by (auto simp: check_blur_decision update_blur_tracked remove_blur_tracked
      split: decision.splits if_splits)

lemma check_blur_get_other:
  assumes "check_blur st pid wa mw = Inr st'" and "q \<noteq> pid"
  shows "map_get (blur_actor_map st') q = map_get (blur_actor_map st) q"
  using assms
  by (auto simp: check_blur_decision update_blur_get_other remove_blur_get_other
      split: decision.splits if_splits)

lemma check_blur_has_blur:
  assumes "check_blur st pid wa mw = Inr st'"
    and "\<not> window_group_null st" and "bindings_tracked st"
  shows "map_has (blur_actor_map st') q =
     (if q = pid then enabled_nonzero (Some (decision_of (prefs st) mw))
      else map_has (blur_actor_map st) q)"
proof (cases "decision_of (prefs st) mw")
  case (Enabled b s)
  with assms(1) have u: "update_blur st pid wa mw b s = Inr st'"
    by (simp add: check_blur_decision)
  show ?thesis
    using assms(2,3)
    by (auto simp: update_blur_has_blur [OF u] Enabled enabled_nonzero_def bindings_tracked_iff)
next
  case Disabled
  with assms show ?thesis
    by (auto simp: check_blur_decision remove_blur_has_blur enabled_nonzero_def
        bindings_tracked_iff split: if_splits)
qed

lemma check_blur_has_blur_weak:
  assumes "check_blur st pid wa mw = Inr st'" and "map_has (blur_actor_map st') q"
  shows "q = pid \<or> map_has (blur_actor_map st) q"
proof (cases "decision_of (prefs st) mw")
  case (Enabled b s)
  with assms(1) have u: "update_blur st pid wa mw b s = Inr st'"
    by (simp add: check_blur_decision)
  show ?thesis
    using assms(2) by (auto simp: update_blur_has_blur [OF u] split: if_splits)
next
  case Disabled
  with assms show ?thesis
    by (auto simp: check_blur_decision remove_blur_has_blur split: if_splits)
qed

lemma check_blur_zero:
  assumes "check_blur st pid wa mw = Inr st'" and "sigma_zero_at st' q"
  shows "sigma_zero_at st q"
  using assms
  by (auto simp: check_blur_decision dest: update_blur_zero remove_blur_zero
      split: decision.splits if_splits)

lemma track_new_Inr:
  "track_new st pid wa mw = Inr st' \<Longrightarrow> wa \<noteq> None \<and> check_blur st pid wa mw = Inr st'"
  by (auto simp: track_new_def split: option.splits)

lemma track_new_Some: "track_new st pid (Some a) mw = check_blur st pid (Some a) mw"
  by (simp add: track_new_def)

lemma track_new_None: "track_new st pid None mw = Inl TypeError"
  by (simp add: track_new_def)

lemma on_destroy_has_window:
  "\<not> map_has (window_map (on_destroy st pid)) pid"
  by (simp add: on_destroy_def Let_def)

lemma on_destroy_has_blur:
  "map_has (blur_actor_map (on_destroy st pid)) q =
     (map_has (blur_actor_map st) q
      \<and> (window_group_null st \<or> \<not> map_has (window_map st) pid \<or> q \<noteq> pid))"
  by (auto simp: on_destroy_def Let_def remove_blur_has_blur)

lemma on_destroy_has_window_other:
  "map_has (window_map (on_destroy st pid)) q = (map_has (window_map st) q \<and> q \<noteq> pid)"
  by (auto simp: on_destroy_def Let_def remove_blur_has_window)

lemma on_destroy_frame [simp]:
  "prefs (on_destroy st pid) = prefs st"
  "window_group_null (on_destroy st pid) = window_group_null st"
  by (simp_all add: on_destroy_def Let_def)

lemma on_destroy_zero: "sigma_zero_at (on_destroy st pid) q \<Longrightarrow> sigma_zero_at st q"
  using remove_blur_zero [of st pid q]
  by (auto simp: on_destroy_def Let_def sigma_zero_at_def split: if_splits)

lemma on_size_changed_has:
  "map_has (blur_actor_map (on_size_changed st pid mw)) q = map_has (blur_actor_map st) q"
  "window_map (on_size_changed st pid mw) = window_map st"
  "prefs (on_size_changed st pid mw) = prefs st"
  "window_group_null (on_size_changed st pid mw) = window_group_null st"
  by (auto simp: on_size_changed_def Let_def split: option.splits)

lemma on_size_changed_unbound:
  "\<not> map_has (blur_actor_map st) pid \<Longrightarrow> on_size_changed st pid mw = st"
  by (simp add: on_size_changed_def)

lemma on_size_changed_zero:
  "sigma_zero_at (on_size_changed st pid mw) q = sigma_zero_at st q"
  by (auto simp: on_size_changed_def Let_def sigma_zero_at_def split: option.splits)

lemma visible_changed_has:
  "map_has (blur_actor_map (state_after st (on_notify_visible st pid wa))) q
     = map_has (blur_actor_map st) q"
  "window_map (state_after st (on_notify_visible st pid wa)) = window_map st"
  "prefs (state_after st (on_notify_visible st pid wa)) = prefs st"
  "window_group_null (state_after st (on_notify_visible st pid wa)) = window_group_null st"
  by (auto simp: state_after_def on_notify_visible_def map_has_get split: option.splits)

lemma visible_changed_zero:
  "sigma_zero_at (state_after st (on_notify_visible st pid wa)) q = sigma_zero_at st q"
  by (auto simp: state_after_def on_notify_visible_def sigma_zero_at_def split: option.splits)

lemma set_sigma_has:
  "map_has (blur_actor_map (set_sigma st v)) q = map_has (blur_actor_map st) q"
  by (simp add: map_has_keys set_sigma_def map_keys_map_values)

lemma set_brightness_has:
  "map_has (blur_actor_map (set_brightness st v)) q = map_has (blur_actor_map st) q"
  by (simp add: map_has_keys set_brightness_def map_keys_map_values)

lemma set_sigma_zero: "v \<noteq> 0 \<Longrightarrow> \<not> sigma_zero_at (set_sigma st v) q"
  by (simp add: sigma_zero_at_def set_sigma_def map_get_map_values split: option.splits)

lemma set_brightness_zero: "sigma_zero_at (set_brightness st v) q = sigma_zero_at st q"
  by (simp add: sigma_zero_at_def set_brightness_def map_get_map_values split: option.splits)

section \<open>The rescan\<close>

lemma remove_all_frame [simp]:
  "prefs (remove_all st ks) = prefs st"
  "window_group_null (remove_all st ks) = window_group_null st"
  by (induction ks arbitrary: st) (simp_all add: remove_all_def)

lemma remove_all_Cons: "remove_all st (k # ks) = remove_all (remove_blur st k) ks"
  by (simp add: remove_all_def)

lemma remove_all_tracked: "bindings_tracked st \<Longrightarrow> bindings_tracked (remove_all st ks)"
  by (induction ks arbitrary: st) (simp_all add: remove_all_def remove_blur_tracked)

lemma remove_all_zero: "sigma_zero_at (remove_all st ks) q \<Longrightarrow> sigma_zero_at st q"
  by (induction ks arbitrary: st) (auto simp: remove_all_def dest: remove_blur_zero)

lemma remove_all_has_window:
  "\<not> window_group_null st \<Longrightarrow>
     map_has (window_map (remove_all st ks)) q = (map_has (window_map st) q \<and> q \<notin> set ks)"
proof (induction ks arbitrary: st)
  case Nil
  then show ?case by (simp add: remove_all_def)
next
  case (Cons k ks)
  then show ?case by (auto simp: remove_all_Cons remove_blur_has_window)
qed

lemma remove_all_has_blur:
  "\<not> window_group_null st \<Longrightarrow> bindings_tracked st \<Longrightarrow>
     map_has (blur_actor_map (remove_all st ks)) q = (map_has (blur_actor_map st) q \<and> q \<notin> set ks)"
proof (induction ks arbitrary: st)
  case Nil
  then show ?case by (simp add: remove_all_def)
next
  case (Cons k ks)
  have "map_has (blur_actor_map (remove_blur st k)) q = (map_has (blur_actor_map st) q \<and> q \<noteq> k)"
    using Cons.prems by (auto simp: remove_blur_has_blur bindings_tracked_iff)
  moreover have "\<not> window_group_null (remove_blur st k)" "bindings_tracked (remove_blur st k)"
    using Cons.prems by (simp_all add: remove_blur_tracked)
  ultimately show ?case using Cons.IH [of "remove_blur st k"]
    by (auto simp: remove_all_Cons)
qed

lemma no_keys_empty:
  assumes "\<And>q. \<not> map_has m q"
  shows "m = []"
proof (cases m)
  case Nil
  then show ?thesis .
next
  case (Cons p ps)
  then have "map_has m (fst p)" by (simp add: map_has_def)
  with assms show ?thesis by blast
qed

lemma remove_all_clears:
  assumes "\<not> window_group_null st" and "bindings_tracked st"
  shows "window_map (remove_all st (map_keys (window_map st))) = []"
    and "blur_actor_map (remove_all st (map_keys (window_map st))) = []"
proof -
  have w: "\<not> map_has (window_map (remove_all st (map_keys (window_map st)))) q" for q
    using remove_all_has_window [OF assms(1), of "map_keys (window_map st)" q]
    by (simp add: map_has_keys)
  have b: "\<not> map_has (blur_actor_map (remove_all st (map_keys (window_map st)))) q" for q
    using remove_all_has_blur [OF assms, of "map_keys (window_map st)" q] assms(2)
    by (auto simp: bindings_tracked_def map_has_keys)
  show "window_map (remove_all st (map_keys (window_map st))) = []"
    using w by (rule no_keys_empty)
  show "blur_actor_map (remove_all st (map_keys (window_map st))) = []"
    using b by (rule no_keys_empty)
qed

lemma track_windows_cases:
  obtains (stop) "compositor_private mw = None" "track_windows st ((pid, mw) # ws) = (Some TypeError, st)"
  | (go) a st' where "compositor_private mw = Some a" "check_blur st pid (Some a) mw = Inr st'"
      "track_windows st ((pid, mw) # ws) = track_windows st' ws"
proof (cases "compositor_private mw")
  case None
  then have "track_windows st ((pid, mw) # ws) = (Some TypeError, st)"
    by (simp add: track_new_None)
  with None show ?thesis by (rule stop)
next
  case (Some a)
  obtain st' where c: "check_blur st pid (Some a) mw = Inr st'"
    using check_blur_completes [of "Some a" st pid mw] by auto
  then have "track_windows st ((pid, mw) # ws) = track_windows st' ws"
    by (simp add: Some track_new_Some)
  with Some c show ?thesis by (rule go)
qed

lemma track_windows_frame [simp]:
  "prefs (snd (track_windows st ws)) = prefs st"
  "window_group_null (snd (track_windows st ws)) = window_group_null st"
proof (induction ws arbitrary: st)
  case Nil
  {
    case 1
    show ?case by simp
  next
    case 2
    show ?case by simp
  }
next
  case (Cons w ws)
  obtain pid mw where w: "w = (pid, mw)" by (cases w)
  {
    case 1
    show ?case unfolding w
      by (rule track_windows_cases [where mw = mw and st = st and pid = pid and ws = ws]) (simp_all add: Cons.IH check_blur_frame)
  next
    case 2
    show ?case unfolding w
      by (rule track_windows_cases [where mw = mw and st = st and pid = pid and ws = ws]) (simp_all add: Cons.IH check_blur_frame)
  }
qed

lemma track_windows_tracked:
  "bindings_tracked st \<Longrightarrow> bindings_tracked (snd (track_windows st ws))"
proof (induction ws arbitrary: st)
  case Nil
  then show ?case by simp
next
  case (Cons w ws)
  obtain pid mw where w: "w = (pid, mw)" by (cases w)
  show ?case unfolding w
    by (rule track_windows_cases [where mw = mw and st = st and pid = pid and ws = ws])
      (use Cons in \<open>simp_all add: check_blur_tracked\<close>)
qed

lemma track_windows_zero:
  "sigma_zero_at (snd (track_windows st ws)) q \<Longrightarrow> sigma_zero_at st q"
proof (induction ws arbitrary: st)
  case Nil
  then show ?case by simp
next
  case (Cons w ws)
  obtain pid mw where w: "w = (pid, mw)" by (cases w)
  show ?case
  proof (rule track_windows_cases [where mw = mw and st = st and pid = pid and ws = ws])
    assume "track_windows st ((pid, mw) # ws) = (Some TypeError, st)"
    with Cons.prems show ?thesis by (simp add: w)
  next
    fix a st'
    assume c: "check_blur st pid (Some a) mw = Inr st'"
      and "track_windows st ((pid, mw) # ws) = track_windows st' ws"
    with Cons.prems have "sigma_zero_at (snd (track_windows st' ws)) q" by (simp add: w)
    then have "sigma_zero_at st' q" by (rule Cons.IH)
    with c show ?thesis by (rule check_blur_zero)
  qed
qed

lemma track_windows_has_blur_weak:
  "map_has (blur_actor_map (snd (track_windows st ws))) q \<Longrightarrow>
     q \<in> fst ` set ws \<or> map_has (blur_actor_map st) q"
proof (induction ws arbitrary: st)
  case Nil
  then show ?case by simp
next
  case (Cons w ws)
  obtain pid mw where w: "w = (pid, mw)" by (cases w)
  show ?case
  proof (rule track_windows_cases [where mw = mw and st = st and pid = pid and ws = ws])
    assume "track_windows st ((pid, mw) # ws) = (Some TypeError, st)"
    with Cons.prems show ?thesis by (simp add: w)
  next
    fix a st'
    assume c: "check_blur st pid (Some a) mw = Inr st'"
      and "track_windows st ((pid, mw) # ws) = track_windows st' ws"
    with Cons.prems have "map_has (blur_actor_map (snd (track_windows st' ws))) q"
      by (simp add: w)
    then have "q \<in> fst ` set ws \<or> map_has (blur_actor_map st') q" by (rule Cons.IH)
    then show ?thesis using check_blur_has_blur_weak [OF c, of q] by (auto simp: w)
  qed
qed

lemma track_windows_completes:
  "fst (track_windows st ws) = None \<longleftrightarrow> list_all has_actor ws"
proof (induction ws arbitrary: st)
  case Nil
  show ?case by simp
next
  case (Cons w ws)
  obtain pid mw where w: "w = (pid, mw)" by (cases w)
  show ?case unfolding w
    by (rule track_windows_cases [where mw = mw and st = st and pid = pid and ws = ws]) (simp_all add: Cons.IH has_actor_def)
qed

lemma track_windows_agrees:
  "\<not> window_group_null st \<Longrightarrow> bindings_tracked st \<Longrightarrow> agrees st g \<Longrightarrow>
     agrees (snd (track_windows st ws)) (record_all (prefs st) g (takeWhile has_actor ws))"
proof (induction ws arbitrary: st g)
  case Nil
  then show ?case by (simp add: record_all_def)
next
  case (Cons w ws)
  obtain pid mw where w: "w = (pid, mw)" by (cases w)
  show ?case
  proof (rule track_windows_cases [where mw = mw and st = st and pid = pid and ws = ws])
    assume stop: "compositor_private mw = None"
      "track_windows st ((pid, mw) # ws) = (Some TypeError, st)"
    with Cons.prems show ?case by (simp add: w has_actor_def record_all_def)
  next
    fix a st'
    assume go: "compositor_private mw = Some a" "check_blur st pid (Some a) mw = Inr st'"
      "track_windows st ((pid, mw) # ws) = track_windows st' ws"
    let ?g = "g(pid \<mapsto> decision_of (prefs st) mw)"
    have a: "agrees st' ?g"
      using Cons.prems by (simp add: agrees_def check_blur_has_blur [OF go(2)])
    have n: "\<not> window_group_null st'" and t: "bindings_tracked st'" and p: "prefs st' = prefs st"
      using Cons.prems by (simp_all add: check_blur_frame [OF go(2)] check_blur_tracked [OF go(2)])
    have "agrees (snd (track_windows st' ws)) (record_all (prefs st) ?g (takeWhile has_actor ws))"
      using Cons.IH [OF n t a] by (simp only: p)
    moreover have "record_all (prefs st) g (takeWhile has_actor (w # ws))
        = record_all (prefs st) ?g (takeWhile has_actor ws)"
      by (simp add: w has_actor_def go(1) record_all_def)
    ultimately show ?case by (simp only: w go(3))
  qed
qed

lemma track_windows_append:
  "track_windows st (xs @ ys) =
     (case fst (track_windows st xs) of
        Some e \<Rightarrow> (Some e, snd (track_windows st xs))
      | None \<Rightarrow> track_windows (snd (track_windows st xs)) ys)"
proof (induction xs arbitrary: st)
  case Nil
  show ?case by simp
next
  case (Cons w xs)
  obtain pid mw where w: "w = (pid, mw)" by (cases w)
  show ?case
    unfolding w
  proof (cases "track_new st pid (compositor_private mw) mw")
    case (Inl e)
    then show "track_windows st (((pid, mw) # xs) @ ys) =
        (case fst (track_windows st ((pid, mw) # xs)) of
           Some e \<Rightarrow> (Some e, snd (track_windows st ((pid, mw) # xs)))
         | None \<Rightarrow> track_windows (snd (track_windows st ((pid, mw) # xs))) ys)"
      by simp
  next
    case (Inr st')
    then have e: "track_windows st ((pid, mw) # xs) = track_windows st' xs"
      and e': "track_windows st (((pid, mw) # xs) @ ys) = track_windows st' (xs @ ys)"
      by simp_all
    show "track_windows st (((pid, mw) # xs) @ ys) =
        (case fst (track_windows st ((pid, mw) # xs)) of
           Some e \<Rightarrow> (Some e, snd (track_windows st ((pid, mw) # xs)))
         | None \<Rightarrow> track_windows (snd (track_windows st ((pid, mw) # xs))) ys)"
      unfolding e e' by (rule Cons.IH)
  qed
qed

lemma track_workspaces_concat: "track_workspaces st wss = track_windows st (concat wss)"
  by (induction wss arbitrary: st) (auto simp: track_windows_append split: option.splits)

lemma update_all_windows_eq:
  "update_all_windows st wss =
     track_windows (remove_all st (map_keys (window_map st))) (concat wss)"
  by (simp add: update_all_windows_def track_workspaces_concat)

lemma update_all_windows_frame [simp]:
  "prefs (snd (update_all_windows st wss)) = prefs st"
  "window_group_null (snd (update_all_windows st wss)) = window_group_null st"
  by (simp_all add: update_all_windows_eq)

lemma update_all_windows_tracked:
  "bindings_tracked st \<Longrightarrow> bindings_tracked (snd (update_all_windows st wss))"
  by (simp add: update_all_windows_eq track_windows_tracked remove_all_tracked)

lemma update_all_windows_zero:
  "sigma_zero_at (snd (update_all_windows st wss)) q \<Longrightarrow> sigma_zero_at st q"
  by (auto simp: update_all_windows_eq dest: track_windows_zero remove_all_zero)

section \<open>Runs of events\<close>

lemma set_sigma_frame [simp]:
  "window_map (set_sigma st v) = window_map st"
  "prefs (set_sigma st v) = prefs st"
  "window_group_null (set_sigma st v) = window_group_null st"
  by (simp_all add: set_sigma_def)

lemma set_brightness_frame [simp]:
  "window_map (set_brightness st v) = window_map st"
  "prefs (set_brightness st v) = prefs st"
  "window_group_null (set_brightness st v) = window_group_null st"
  by (simp_all add: set_brightness_def)

lemma state_after_Inr [simp]: "state_after st (Inr st') = st'"
  by (simp add: state_after_def)

lemma state_after_Inl [simp]: "state_after st (Inl e) = st"
  by (simp add: state_after_def)

lemma check_blur_after_frame:
  "window_group_null (state_after st (check_blur st pid wa mw)) = window_group_null st"
  by (cases "check_blur st pid wa mw") (simp_all add: check_blur_frame)

lemma check_blur_after_tracked:
  "bindings_tracked st \<Longrightarrow> bindings_tracked (state_after st (check_blur st pid wa mw))"
  by (cases "check_blur st pid wa mw") (simp_all add: check_blur_tracked)

lemma check_blur_after_zero:
  "sigma_zero_at (state_after st (check_blur st pid wa mw)) q \<Longrightarrow> sigma_zero_at st q"
  by (cases "check_blur st pid wa mw") (auto dest: check_blur_zero)

lemma track_new_after:
  "state_after st (track_new st pid wa mw) =
     (case wa of None \<Rightarrow> st | Some a \<Rightarrow> state_after st (check_blur st pid wa mw))"
  by (simp add: track_new_def split: option.splits)

lemma handle_window_group:
  "\<not> window_group_null st \<Longrightarrow> container_kept e \<Longrightarrow> \<not> window_group_null (handle st e)"
  by (cases e)
    (simp_all add: track_new_after on_notify_def check_blur_after_frame on_size_changed_has
      visible_changed_has split: option.splits)

lemma handle_tracked:
  assumes "bindings_tracked st" and "\<not> window_group_null st"
  shows "bindings_tracked (handle st e)"
proof (cases e)
  case (Window_created pid mw)
  with assms show ?thesis
    by (simp add: track_new_after check_blur_after_tracked split: option.splits)
next
  case (Property_changed pid mw)
  with assms show ?thesis by (simp add: on_notify_def check_blur_after_tracked)
next
  case (Size_changed pid mw)
  with assms show ?thesis by (simp add: bindings_tracked_iff on_size_changed_has)
next
  case (Visible_changed pid wa)
  with assms show ?thesis by (simp add: bindings_tracked_iff visible_changed_has)
next
  case (Destroyed pid)
  with assms show ?thesis
    by (auto simp: bindings_tracked_iff on_destroy_has_blur on_destroy_has_window_other)
next
  case (Lists_changed wss)
  with assms show ?thesis by (simp add: update_all_windows_tracked)
next
  case (Sigma_changed v)
  with assms show ?thesis by (simp add: bindings_tracked_iff set_sigma_has)
next
  case (Brightness_changed v)
  with assms show ?thesis by (simp add: bindings_tracked_iff set_brightness_has)
next
  case (Prefs_changed p)
  with assms show ?thesis by (simp add: bindings_tracked_def)
next
  case (Window_group_changed b)
  with assms show ?thesis by (simp add: bindings_tracked_def)
qed

lemma check_blur_agrees:
  assumes "\<not> window_group_null st" and "bindings_tracked st" and "agrees st g"
  shows "agrees (state_after st (check_blur st pid (Some a) mw))
     (g(pid \<mapsto> decision_of (prefs st) mw))"
proof -
  obtain st' where c: "check_blur st pid (Some a) mw = Inr st'"
    using check_blur_completes [of "Some a" st pid mw] by auto
  show ?thesis
    using assms by (simp add: c agrees_def check_blur_has_blur [OF c])
qed

lemma handle_agrees:
  assumes "\<not> window_group_null st" and "bindings_tracked st" and "agrees st g"
    and "actor_found e"
  shows "agrees (handle st e) (latest st g e)"
proof (cases e)
  case (Window_created pid mw)
  show ?thesis
  proof (cases "compositor_private mw")
    case None
    with assms(3) show ?thesis by (simp add: Window_created track_new_after)
  next
    case (Some a)
    with check_blur_agrees [OF assms(1-3), of pid a mw] show ?thesis
      by (simp add: Window_created track_new_after)
  qed
next
  case (Property_changed pid mw)
  with assms(4) obtain a where "compositor_private mw = Some a" by auto
  with check_blur_agrees [OF assms(1-3), of pid a mw] show ?thesis
    by (simp add: Property_changed on_notify_def)
next
  case (Size_changed pid mw)
  with assms show ?thesis by (simp add: agrees_def on_size_changed_has)
next
  case (Visible_changed pid wa)
  with assms show ?thesis by (simp add: agrees_def visible_changed_has)
next
  case (Destroyed pid)
  with assms show ?thesis
    by (auto simp: agrees_def on_destroy_has_blur bindings_tracked_iff enabled_nonzero_def)
next
  case (Lists_changed wss)
  let ?st = "remove_all st (map_keys (window_map st))"
  have a: "agrees ?st Map.empty"
    using remove_all_clears(2) [OF assms(1,2)]
    by (simp add: agrees_def map_has_def enabled_nonzero_def)
  have n: "\<not> window_group_null ?st" and t: "bindings_tracked ?st"
    using assms by (simp_all add: remove_all_tracked)
  have "agrees (snd (track_windows ?st (concat wss)))
      (record_all (prefs ?st) Map.empty (takeWhile has_actor (concat wss)))"
    using n t a by (rule track_windows_agrees)
  then show ?thesis by (simp add: Lists_changed update_all_windows_eq tracked_def)
next
  case (Sigma_changed v)
  with assms show ?thesis by (simp add: agrees_def set_sigma_has)
next
  case (Brightness_changed v)
  with assms show ?thesis by (simp add: agrees_def set_brightness_has)
next
  case (Prefs_changed p)
  with assms show ?thesis by (simp add: agrees_def)
next
  case (Window_group_changed b)
  with assms show ?thesis by (simp add: agrees_def)
qed

lemma run_Cons: "run sg (e # es) = run (step sg e) es"
  by (simp add: run_def)

lemma run_append: "run sg (es1 @ es2) = run (run sg es1) es2"
  by (simp add: run_def)

lemma run_invariant:
  assumes "\<not> window_group_null st" and "bindings_tracked st" and "agrees st g"
    and "list_all container_kept es" and "list_all actor_found es"
  shows "\<not> window_group_null (fst (run (st, g) es))
    \<and> bindings_tracked (fst (run (st, g) es))
    \<and> agrees (fst (run (st, g) es)) (snd (run (st, g) es))"
  using assms
proof (induction es arbitrary: st g)
  case Nil
  then show ?case by (simp add: run_def)
next
  case (Cons e es)
  have "\<not> window_group_null (handle st e)" "bindings_tracked (handle st e)"
    "agrees (handle st e) (latest st g e)"
    using Cons.prems by (simp_all add: handle_window_group handle_tracked handle_agrees)
  moreover have "list_all container_kept es" "list_all actor_found es"
    using Cons.prems by simp_all
  ultimately show ?case using Cons.IH [of "handle st e" "latest st g e"]
    by (simp add: run_Cons step_def)
qed

lemma handle_zero:
  assumes "e \<noteq> Sigma_changed 0" and "sigma_zero_at (handle st e) q"
  shows "sigma_zero_at st q"
proof (cases e)
  case (Window_created pid mw)
  with assms(2) show ?thesis
    by (auto simp: track_new_after dest: check_blur_after_zero split: option.splits)
next
  case (Property_changed pid mw)
  with assms(2) show ?thesis by (auto simp: on_notify_def dest: check_blur_after_zero)
next
  case (Size_changed pid mw)
  with assms(2) show ?thesis by (simp add: on_size_changed_zero)
next
  case (Visible_changed pid wa)
  with assms(2) show ?thesis by (simp add: visible_changed_zero)
next
  case (Destroyed pid)
  with assms(2) show ?thesis by (auto dest: on_destroy_zero)
next
  case (Lists_changed wss)
  with assms(2) show ?thesis by (auto dest: update_all_windows_zero)
next
  case (Sigma_changed v)
  with assms show ?thesis by (simp add: set_sigma_zero)
next
  case (Brightness_changed v)
  with assms(2) show ?thesis by (simp add: set_brightness_zero)
next
  case (Prefs_changed p)
  with assms(2) show ?thesis by (simp add: sigma_zero_at_def)
next
  case (Window_group_changed b)
  with assms(2) show ?thesis by (simp add: sigma_zero_at_def)
qed

lemma run_zero:
  "Sigma_changed 0 \<notin> set es \<Longrightarrow> sigma_zero_at (fst (run (st, g) es)) q \<Longrightarrow> sigma_zero_at st q"
proof (induction es arbitrary: st g)
  case Nil
  then show ?case by (simp add: run_def)
next
  case (Cons e es)
  then have "sigma_zero_at (handle st e) q" by (simp add: run_Cons step_def)
  moreover have "e \<noteq> Sigma_changed 0" using Cons.prems by auto
  ultimately show ?case by (rule handle_zero [rotated])
qed

lemma init_invariant:
  "\<not> window_group_null (init p)" "bindings_tracked (init p)" "agrees (init p) Map.empty"
  by (simp_all add: init_def bindings_tracked_def map_keys_def agrees_def map_has_def
      enabled_nonzero_def)

lemma run_tracked:
  assumes "\<not> window_group_null st" and "bindings_tracked st" and "list_all container_kept es"
  shows "\<not> window_group_null (fst (run (st, g) es)) \<and> bindings_tracked (fst (run (st, g) es))"
  using assms
proof (induction es arbitrary: st g)
  case Nil
  then show ?case by (simp add: run_def)
next
  case (Cons e es)
  have "\<not> window_group_null (handle st e)" "bindings_tracked (handle st e)"
    using Cons.prems by (simp_all add: handle_window_group handle_tracked)
  moreover have "list_all container_kept es" using Cons.prems by simp
  ultimately show ?case using Cons.IH [of "handle st e" "latest st g e"]
    by (simp add: run_Cons step_def)
qed

section \<open>Bindings and decisions\<close>

text \<open>
  Where claim C1 fails. With \<^verbatim>\<open>global.window_group\<close> \<^verbatim>\<open>null\<close>, \<^verbatim>\<open>update_blur\<close> with sigma 0 on
  the bound token \<^verbatim>\<open>"1"\<close> leaves it bound; \<^verbatim>\<open>set_sigma(0)\<close> stores sigma 0 in the effect of
  a bound token; a token whose one decision was \<open>Enabled\<close> with sigma 40 is not bound
  once its window is destroyed; and when a property changes on a whitelisted window that
  has no actor, the decision is \<open>Enabled\<close> with sigma 40, \<^verbatim>\<open>create_blur_effect\<close> raises
  before it writes to the maps, and the token is not bound.
\<close>

theorem binding_iff_latest_decision_counterexample:
  "map_has (blur_actor_map
       (state_after (bound_state\<lparr>window_group_null := True\<rparr>)
          (update_blur (bound_state\<lparr>window_group_null := True\<rparr>) ''1'' (Some \<lparr>visible = True\<rparr>)
             (example_window (Some ''Foo'') None) (Num 1) 0))) ''1''
   \<and> map_get (blur_actor_map (set_sigma bound_state 0)) ''1''
       = Some \<lparr>actor_x = 10, actor_y = 10, width_offset = - 20, height_offset = - 20,
               effect = \<lparr>sigma = 0, brightness = Num (9 / 10)\<rparr>, shown = True\<rparr>
   \<and> decision_of prefs_whitelist (example_window (Some ''Foo'') None)
       = Enabled (Num (9 / 10)) 40
   \<and> \<not> map_has (blur_actor_map (on_destroy bound_state ''1'')) ''1''
   \<and> on_notify (init prefs_whitelist) ''1''
         ((example_window (Some ''Foo'') None)\<lparr>compositor_private := None\<rparr>)
       = Inl TypeError
   \<and> snd (run (init prefs_whitelist, Map.empty)
          [Property_changed ''1''
             ((example_window (Some ''Foo'') None)\<lparr>compositor_private := None\<rparr>)]) ''1''
       = Some (Enabled (Num (9 / 10)) 40)
   \<and> \<not> map_has (blur_actor_map
          (fst (run (init prefs_whitelist, Map.empty)
             [Property_changed ''1''
                ((example_window (Some ''Foo'') None)\<lparr>compositor_private := None\<rparr>)]))) ''1''"
  by code_simp

text \<open>
  Claim C1, amended. Take any sequence of events handled from the state of a new engine:
  windows created, properties, sizes and visibilities changed, windows destroyed,
  rescans, \<^verbatim>\<open>set_sigma\<close>, \<^verbatim>\<open>set_brightness\<close>, and changes of the preferences. If no event
  makes \<^verbatim>\<open>global.window_group\<close> \<^verbatim>\<open>null\<close> and every window whose property changes has an
  actor, then after it a token is a key of the binding map if and only if the latest
  decision for it (since a destruction or a rescan last dropped it), taken under the
  preferences of its time, is \<open>Enabled\<close> with a sigma other than 0. If no event makes
  \<^verbatim>\<open>global.window_group\<close> \<^verbatim>\<open>null\<close>, then \<^verbatim>\<open>update_blur\<close> with sigma 0 completes and removes the
  binding of a bound token; and for an unbound token it returns the state it was given.
  And whatever the events, no handler but \<^verbatim>\<open>set_sigma(0)\<close> gives a binding the sigma 0:
  a token that is bound with sigma 0 after events among which \<^verbatim>\<open>set_sigma(0)\<close> is not was
  bound with sigma 0 before them.
\<close>

theorem binding_iff_latest_decision:
  "(list_all container_kept es \<and> list_all actor_found es \<longrightarrow>
      (map_has (blur_actor_map (fst (run (init p, Map.empty) es))) pid
         \<longleftrightarrow> enabled_nonzero (snd (run (init p, Map.empty) es) pid)))
   \<and> (list_all container_kept es
        \<and> map_has (blur_actor_map (fst (run (init p, Map.empty) es))) pid \<longrightarrow>
        (\<exists>st'. update_blur (fst (run (init p, Map.empty) es)) pid wa mw b 0 = Inr st'
           \<and> \<not> map_has (blur_actor_map st') pid))
   \<and> (\<not> map_has (blur_actor_map (fst (run (init p, Map.empty) es))) pid \<longrightarrow>
        update_blur (fst (run (init p, Map.empty) es)) pid wa mw b 0
          = Inr (fst (run (init p, Map.empty) es)))
   \<and> (\<forall>es1 es2. es = es1 @ es2 \<and> Sigma_changed 0 \<notin> set es2
        \<and> sigma_zero_at (fst (run (init p, Map.empty) es)) pid \<longrightarrow>
        sigma_zero_at (fst (run (init p, Map.empty) es1)) pid)"
proof -
  let ?st = "fst (run (init p, Map.empty) es)"
  have iff: "map_has (blur_actor_map ?st) pid
      \<longleftrightarrow> enabled_nonzero (snd (run (init p, Map.empty) es) pid)"
    if "list_all container_kept es" and "list_all actor_found es"
    using run_invariant [of "init p" Map.empty es, OF init_invariant that]
    by (simp add: agrees_def)
  have rem: "\<exists>st'. update_blur ?st pid wa mw b 0 = Inr st' \<and> \<not> map_has (blur_actor_map st') pid"
    if k: "list_all container_kept es" and h: "map_has (blur_actor_map ?st) pid"
  proof -
    have inv: "\<not> window_group_null ?st" "bindings_tracked ?st"
      using run_tracked [of "init p" es Map.empty, OF init_invariant(1,2) k] by simp_all
    have u: "update_blur ?st pid wa mw b 0 = Inr (remove_blur ?st pid)"
      using h by (simp add: update_blur_def)
    have "\<not> map_has (blur_actor_map (remove_blur ?st pid)) pid"
      using inv h by (auto simp: remove_blur_has_blur bindings_tracked_iff)
    with u show ?thesis by blast
  qed
  have same: "update_blur ?st pid wa mw b 0 = Inr ?st"
    if "\<not> map_has (blur_actor_map ?st) pid"
    using that by (simp add: update_blur_def)
  have zero: "sigma_zero_at (fst (run (init p, Map.empty) es1)) pid"
    if "es = es1 @ es2" and "Sigma_changed 0 \<notin> set es2" and "sigma_zero_at ?st pid"
    for es1 es2
  proof -
    have "run (init p, Map.empty) es
        = run (fst (run (init p, Map.empty) es1), snd (run (init p, Map.empty) es1)) es2"
      by (simp add: that(1) run_append)
    with that(3) have "sigma_zero_at
        (fst (run (fst (run (init p, Map.empty) es1), snd (run (init p, Map.empty) es1)) es2)) pid"
      by simp
    with that(2) show ?thesis by (rule run_zero)
  qed
  from iff rem same zero show ?thesis by blast
qed

theorem binding_iff_latest_decision_witness:
  "list_all container_kept
     [Prefs_changed prefs_blacklist, Lists_changed [[(''2'', example_window (Some ''Bar'') None)]]]
   \<and> list_all actor_found
     [Prefs_changed prefs_blacklist, Lists_changed [[(''2'', example_window (Some ''Bar'') None)]]]
   \<and> snd (run (init prefs_whitelist, Map.empty)
        [Prefs_changed prefs_blacklist,
         Lists_changed [[(''2'', example_window (Some ''Bar'') None)]]]) ''2''
       = Some (Enabled (Num (9 / 10)) 40)
   \<and> map_has (blur_actor_map (fst (run (init prefs_whitelist, Map.empty)
        [Prefs_changed prefs_blacklist,
         Lists_changed [[(''2'', example_window (Some ''Bar'') None)]]]))) ''2''
   \<and> list_all container_kept
     [Window_created ''1'' (example_window (Some ''Foo'') None), Sigma_changed 0,
      Size_changed ''1'' (example_window (Some ''Foo'') None)]
   \<and> map_has (blur_actor_map (set_sigma bound_state 0)) ''1''
   \<and> \<not> map_has (blur_actor_map
          (state_after (set_sigma bound_state 0)
             (update_blur (set_sigma bound_state 0) ''1'' None
                (example_window (Some ''Foo'') None) (Num 1) 0))) ''1''
   \<and> \<not> map_has (blur_actor_map (set_sigma bound_state 0)) ''2''
   \<and> update_blur (set_sigma bound_state 0) ''2'' None (example_window (Some ''Foo'') None)
        (Num 1) 0 = Inr (set_sigma bound_state 0)
   \<and> Sigma_changed 0 \<notin> set [Size_changed ''1'' (example_window (Some ''Foo'') None)]
   \<and> sigma_zero_at
        (fst (run (init prefs_whitelist, Map.empty)
           [Window_created ''1'' (example_window (Some ''Foo'') None), Sigma_changed 0,
            Size_changed ''1'' (example_window (Some ''Foo'') None)])) ''1''
   \<and> sigma_zero_at
        (fst (run (init prefs_whitelist, Map.empty)
           [Window_created ''1'' (example_window (Some ''Foo'') None), Sigma_changed 0])) ''1''"
proof -
  let ?w = "example_window (Some ''Foo'') None"
  let ?es1 = "[Window_created ''1'' ?w, Sigma_changed 0]"
  let ?es2 = "[Size_changed ''1'' ?w]"
  let ?es = "[Window_created ''1'' ?w, Sigma_changed 0, Size_changed ''1'' ?w]"
  let ?es' = "[Prefs_changed prefs_blacklist,
    Lists_changed [[(''2'', example_window (Some ''Bar'') None)]]]"
  let ?st = "set_sigma bound_state 0"
  have k': "list_all container_kept ?es'" and a': "list_all actor_found ?es'"
    by simp_all
  have g': "snd (run (init prefs_whitelist, Map.empty) ?es') ''2''
      = Some (Enabled (Num (9 / 10)) 40)"
    by code_simp
  note t0 = binding_iff_latest_decision
    [of ?es' prefs_whitelist "''2''" None ?w "Num 1"]
  from t0 k' a' have "map_has (blur_actor_map (fst (run (init prefs_whitelist, Map.empty) ?es'))) ''2''
      \<longleftrightarrow> enabled_nonzero (snd (run (init prefs_whitelist, Map.empty) ?es') ''2'')"
    by blast
  then have m': "map_has (blur_actor_map (fst (run (init prefs_whitelist, Map.empty) ?es'))) ''2''"
    by (simp add: g' enabled_nonzero_def)
  have k: "list_all container_kept ?es" by simp
  have r: "fst (run (init prefs_whitelist, Map.empty) ?es) = ?st" by code_simp
  have n: "Sigma_changed 0 \<notin> set ?es2" by simp
  have z: "sigma_zero_at (fst (run (init prefs_whitelist, Map.empty) ?es)) ''1''" by code_simp
  have b1: "map_has (blur_actor_map ?st) ''1''" and b2: "\<not> map_has (blur_actor_map ?st) ''2''"
    by code_simp+
  note t1 = binding_iff_latest_decision [of ?es prefs_whitelist "''1''" None ?w "Num 1"]
  note t2 = binding_iff_latest_decision [of ?es prefs_whitelist "''2''" None ?w "Num 1"]
  from t1 k b1 obtain st' where
    "update_blur ?st ''1'' None ?w (Num 1) 0 = Inr st'" "\<not> map_has (blur_actor_map st') ''1''"
    unfolding r by blast
  then have u1: "\<not> map_has (blur_actor_map
      (state_after ?st (update_blur ?st ''1'' None ?w (Num 1) 0))) ''1''"
    by simp
  from t2 b2 have u2: "update_blur ?st ''2'' None ?w (Num 1) 0 = Inr ?st"
    unfolding r by blast
  have "?es = ?es1 @ ?es2" by simp
  with t1 n z have z1: "sigma_zero_at (fst (run (init prefs_whitelist, Map.empty) ?es1)) ''1''"
    by blast
  from k' a' g' m' k b1 u1 b2 u2 n z z1 show ?thesis by (intro conjI)
qed

section \<open>The policy for a blacklisted window\<close>

lemma hinted_state_eq:
  "check_blur (init prefs_blacklist) ''1'' (Some \<lparr>visible = True\<rparr>)
       (example_window (Some ''Foo'') (Some ''blur-provider=60''))
     = Inr \<lparr>prefs = prefs_blacklist,
        window_map = [(''1'', example_window (Some ''Foo'') (Some ''blur-provider=60''))],
        blur_actor_map =
          [(''1'', \<lparr>actor_x = 10, actor_y = 10, width_offset = - 20, height_offset = - 20,
                   effect = \<lparr>sigma = 60, brightness = Num (9 / 10)\<rparr>, shown = True\<rparr>)],
        window_group_null = False\<rparr>"
  by code_simp

text \<open>
  Where claim C2 fails. The class \<^verbatim>\<open>Foo\<close> is blacklisted and \<^verbatim>\<open>ENABLE_ALL\<close> is set; with the
  hint \<^verbatim>\<open>blur-provider=60\<close> the decision is \<open>Enabled\<close> with sigma 60, and \<^verbatim>\<open>check_blur\<close> binds
  the token.
\<close>

theorem blacklisted_window_counterexample:
  "decision_of prefs_blacklist (example_window (Some ''Foo'') (Some ''blur-provider=60''))
     = Enabled (Num (9 / 10)) 60
   \<and> map_has (blur_actor_map
        (state_after (init prefs_blacklist)
           (check_blur (init prefs_blacklist) ''1'' (Some \<lparr>visible = True\<rparr>)
              (example_window (Some ''Foo'') (Some ''blur-provider=60''))))) ''1''"
  by code_simp


text \<open>
  Claim C2, amended. For a window whose class is not empty and is in the blacklist, with
  \<^verbatim>\<open>ENABLE_ALL\<close> set: when the hint is absent or does not contain \<^verbatim>\<open>blur-provider\<close>, the
  decision is \<open>Disabled\<close>, \<^verbatim>\<open>check_blur\<close> creates no binding and calls \<^verbatim>\<open>remove_blur\<close> on
  a bound token, which ends unbound when \<^verbatim>\<open>global.window_group\<close> is not \<^verbatim>\<open>null\<close> and the
  bound tokens are keys of the window map; when the hint contains \<^verbatim>\<open>blur-provider\<close>, the
  decision is \<open>Enabled\<close> with the values \<^verbatim>\<open>parse_xprop\<close> reads from the hint, and
  \<^verbatim>\<open>check_blur\<close> is \<^verbatim>\<open>update_blur\<close> with them.
\<close>

theorem blacklisted_window_policy:
  assumes "wm_class mw = Some c" and "c \<noteq> []"
    and "c \<in> set (BLACKLIST (applications (prefs st)))"
    and "ENABLE_ALL (applications (prefs st))"
  shows "((case mutter_hints mw of None \<Rightarrow> True | Some h \<Rightarrow> \<not> sublist ''blur-provider'' h) \<longrightarrow>
            decision_of (prefs st) mw = Disabled
            \<and> check_blur st pid wa mw
                = Inr (if map_has (blur_actor_map st) pid then remove_blur st pid else st)
            \<and> (\<not> window_group_null st \<and> bindings_tracked st \<longrightarrow>
                 \<not> map_has (blur_actor_map (state_after st (check_blur st pid wa mw))) pid))
       \<and> (\<forall>h. mutter_hints mw = Some h \<and> sublist ''blur-provider'' h \<longrightarrow>
            decision_of (prefs st) mw
              = Enabled (fst (parse_xprop (prefs st) h)) (snd (parse_xprop (prefs st) h))
            \<and> check_blur st pid wa mw
                = update_blur st pid wa mw (fst (parse_xprop (prefs st) h))
                    (snd (parse_xprop (prefs st) h)))"
proof -
  have listed: "\<not> (wm_class mw \<noteq> Some []
         \<and> ((ENABLE_ALL (applications (prefs st))
               \<and> \<not> array_includes (BLACKLIST (applications (prefs st))) (wm_class mw))
              \<or> (\<not> ENABLE_ALL (applications (prefs st))
                  \<and> array_includes (WHITELIST (applications (prefs st))) (wm_class mw))))"
    using assms by (simp add: array_includes_def)
  have d: "decision_of (prefs st) mw =
      (if (case mutter_hints mw of None \<Rightarrow> False | Some h \<Rightarrow> sublist ''blur-provider'' h)
       then Enabled (fst (parse_xprop (prefs st) (the (mutter_hints mw))))
              (snd (parse_xprop (prefs st) (the (mutter_hints mw))))
       else Disabled)"
    using listed unfolding decision_of_def by (simp only: if_False)
  show ?thesis
  proof (intro conjI impI allI)
    assume h: "case mutter_hints mw of None \<Rightarrow> True | Some h \<Rightarrow> \<not> sublist ''blur-provider'' h"
    then show dis: "decision_of (prefs st) mw = Disabled"
      by (simp add: d split: option.splits)
    then show c: "check_blur st pid wa mw
        = Inr (if map_has (blur_actor_map st) pid then remove_blur st pid else st)"
      by (simp add: check_blur_decision)
    assume "\<not> window_group_null st \<and> bindings_tracked st"
    then show "\<not> map_has (blur_actor_map (state_after st (check_blur st pid wa mw))) pid"
      using dis check_blur_has_blur [OF c, of pid] by (simp add: c enabled_nonzero_def)
  next
    fix h
    assume h: "mutter_hints mw = Some h \<and> sublist ''blur-provider'' h"
    then show en: "decision_of (prefs st) mw
        = Enabled (fst (parse_xprop (prefs st) h)) (snd (parse_xprop (prefs st) h))"
      by (simp add: d)
    then show "check_blur st pid wa mw
        = update_blur st pid wa mw (fst (parse_xprop (prefs st) h))
            (snd (parse_xprop (prefs st) h))"
      by (simp add: check_blur_decision)
  qed
qed

theorem blacklisted_window_policy_witness:
  "wm_class (example_window (Some ''Foo'') None) = Some ''Foo'' \<and> ''Foo'' \<noteq> []
   \<and> ''Foo'' \<in> set (BLACKLIST (applications (prefs (bound_state\<lparr>prefs := prefs_blacklist\<rparr>))))
   \<and> ENABLE_ALL (applications (prefs (bound_state\<lparr>prefs := prefs_blacklist\<rparr>)))
   \<and> decision_of prefs_blacklist (example_window (Some ''Foo'') None) = Disabled
   \<and> map_has (blur_actor_map (bound_state\<lparr>prefs := prefs_blacklist\<rparr>)) ''1''
   \<and> \<not> map_has (blur_actor_map
          (state_after (bound_state\<lparr>prefs := prefs_blacklist\<rparr>)
             (check_blur (bound_state\<lparr>prefs := prefs_blacklist\<rparr>) ''1''
                (Some \<lparr>visible = True\<rparr>) (example_window (Some ''Foo'') None)))) ''1''
   \<and> decision_of prefs_blacklist (example_window (Some ''Foo'') (Some ''blur-provider=60''))
       = Enabled (fst (parse_xprop prefs_blacklist ''blur-provider=60''))
           (snd (parse_xprop prefs_blacklist ''blur-provider=60''))"
proof -
  let ?st = "bound_state\<lparr>prefs := prefs_blacklist\<rparr>"
  have c: "wm_class (example_window (Some ''Foo'') None) = Some ''Foo''"
    "wm_class (example_window (Some ''Foo'') (Some ''blur-provider=60'')) = Some ''Foo''"
    by (simp_all add: example_window_def)
  have n: "''Foo'' \<noteq> []" by simp
  have b: "''Foo'' \<in> set (BLACKLIST (applications (prefs ?st)))"
    by (simp add: prefs_blacklist_def)
  have e: "ENABLE_ALL (applications (prefs ?st))" by (simp add: prefs_blacklist_def)
  have t: "\<not> window_group_null ?st \<and> bindings_tracked ?st"
    by (simp add: bound_state_eq bindings_tracked_def map_keys_def)
  have m: "map_has (blur_actor_map ?st) ''1''" by (simp add: bound_state_eq map_has_def)
  have h1: "case mutter_hints (example_window (Some ''Foo'') None) of None \<Rightarrow> True
      | Some h \<Rightarrow> \<not> sublist ''blur-provider'' h"
    by (simp add: example_window_def)
  have h2: "mutter_hints (example_window (Some ''Foo'') (Some ''blur-provider=60''))
        = Some ''blur-provider=60'' \<and> sublist ''blur-provider'' ''blur-provider=60''"
    by (simp add: example_window_def)
  note p1 = blacklisted_window_policy [OF c(1) n b e, of "''1''" "Some \<lparr>visible = True\<rparr>"]
  note p2 = blacklisted_window_policy [OF c(2) n b e, of "''1''" "Some \<lparr>visible = True\<rparr>"]
  from p1 h1 t have d1: "decision_of (prefs ?st) (example_window (Some ''Foo'') None) = Disabled"
    and r1: "\<not> map_has (blur_actor_map
          (state_after ?st
             (check_blur ?st ''1'' (Some \<lparr>visible = True\<rparr>)
                (example_window (Some ''Foo'') None)))) ''1''"
    by blast+
  from p2 h2 have d2:
    "decision_of (prefs ?st) (example_window (Some ''Foo'') (Some ''blur-provider=60''))
       = Enabled (fst (parse_xprop (prefs ?st) ''blur-provider=60''))
           (snd (parse_xprop (prefs ?st) ''blur-provider=60''))"
    by blast
  have p: "prefs ?st = prefs_blacklist" by simp
  from c(1) n b e d1 m r1 d2 show ?thesis unfolding p by (intro conjI)
qed

section \<open>The destruction of a window\<close>

text \<open>
  Where claim C3 fails. With \<^verbatim>\<open>global.window_group\<close> \<^verbatim>\<open>null\<close>, the handler of \<^verbatim>\<open>destroy\<close>
  leaves the token in the binding map and deletes it from the window map. And after a
  destruction that removed the token from both maps, the handler of a property change
  for the same token is not without effect: for a whitelisted window it binds the token
  again.
\<close>

theorem destroy_removes_both_counterexample:
  "map_has (blur_actor_map (on_destroy (bound_state\<lparr>window_group_null := True\<rparr>) ''1'')) ''1''
   \<and> \<not> map_has (window_map (on_destroy (bound_state\<lparr>window_group_null := True\<rparr>) ''1'')) ''1''
   \<and> on_notify (on_destroy bound_state ''1'') ''1'' (example_window (Some ''Foo'') None)
       = Inr bound_state"
  by code_simp

text \<open>
  Claim C3, amended. When \<^verbatim>\<open>global.window_group\<close> is not \<^verbatim>\<open>null\<close> and the token, if bound,
  is a key of the window map, the handler of \<^verbatim>\<open>destroy\<close> leaves the token in neither map
  and leaves the other tokens as they were; after it the handler of \<^verbatim>\<open>size-changed\<close>, a
  second \<^verbatim>\<open>destroy\<close> and \<^verbatim>\<open>remove_blur\<close> for that token change nothing.
\<close>

theorem destroy_removes_both:
  assumes "\<not> window_group_null st"
    and "map_has (blur_actor_map st) pid \<longrightarrow> map_has (window_map st) pid"
  shows "\<not> map_has (window_map (on_destroy st pid)) pid
    \<and> \<not> map_has (blur_actor_map (on_destroy st pid)) pid
    \<and> (\<forall>q. q \<noteq> pid \<longrightarrow>
          map_get (window_map (on_destroy st pid)) q = map_get (window_map st) q
          \<and> map_get (blur_actor_map (on_destroy st pid)) q = map_get (blur_actor_map st) q)
    \<and> on_size_changed (on_destroy st pid) pid mw = on_destroy st pid
    \<and> on_destroy (on_destroy st pid) pid = on_destroy st pid
    \<and> remove_blur (on_destroy st pid) pid = on_destroy st pid"
proof -
  let ?st = "on_destroy st pid"
  have w: "\<not> map_has (window_map ?st) pid" by (rule on_destroy_has_window)
  have b: "\<not> map_has (blur_actor_map ?st) pid"
    using assms by (auto simp: on_destroy_has_blur)
  have o: "\<forall>q. q \<noteq> pid \<longrightarrow>
          map_get (window_map ?st) q = map_get (window_map st) q
          \<and> map_get (blur_actor_map ?st) q = map_get (blur_actor_map st) q"
    by (simp add: on_destroy_def Let_def remove_blur_window_map remove_blur_blur_actor_map)
  have s: "on_size_changed ?st pid mw = ?st" using b by (rule on_size_changed_unbound)
  have r: "remove_blur ?st pid = ?st" using w by (rule remove_blur_untracked)
  have d: "on_destroy ?st pid = ?st"
    using b w by (simp add: on_destroy_def [of ?st] map_delete_absent)
  from w b o s d r show ?thesis by blast
qed

theorem destroy_removes_both_witness:
  "\<not> window_group_null bound_state
   \<and> map_has (blur_actor_map bound_state) ''1'' \<and> map_has (window_map bound_state) ''1''
   \<and> window_map (on_destroy bound_state ''1'') = []
   \<and> blur_actor_map (on_destroy bound_state ''1'') = []
   \<and> on_size_changed (on_destroy bound_state ''1'') ''1'' (example_window (Some ''Foo'') None)
       = on_destroy bound_state ''1''"
proof -
  have a: "\<not> window_group_null bound_state" by (simp add: bound_state_eq)
  have b: "map_has (blur_actor_map bound_state) ''1''" "map_has (window_map bound_state) ''1''"
    by (simp_all add: bound_state_eq map_has_def)
  then have c: "map_has (blur_actor_map bound_state) ''1'' \<longrightarrow> map_has (window_map bound_state) ''1''"
    by simp
  have e: "window_map (on_destroy bound_state ''1'') = []"
    "blur_actor_map (on_destroy bound_state ''1'') = []"
    by (simp_all add: bound_state_eq on_destroy_def Let_def map_has_def remove_blur_def
        map_get_def map_delete_def AList.delete_eq)
  from destroy_removes_both [OF a c, of "example_window (Some ''Foo'') None"] a b e
  show ?thesis by simp
qed

section \<open>The rescan leaves no orphan\<close>

lemma orphan_state_eq:
  "on_destroy (bound_state\<lparr>window_group_null := True\<rparr>) ''1''
     = bound_state\<lparr>window_group_null := True, window_map := []\<rparr>"
  by (simp add: bound_state_eq on_destroy_def remove_blur_null Let_def map_delete_def
      AList.delete_eq)

text \<open>
  Where claim C6 fails. A bound window destroyed while \<^verbatim>\<open>global.window_group\<close> is \<^verbatim>\<open>null\<close>
  leaves its token in the binding map only; a rescan then removes nothing, and the
  binding map holds a token the window map does not. A rescan of a bound window in that
  state removes no binding. And the token left in the binding map only stays there
  through a rescan made when \<^verbatim>\<open>global.window_group\<close> is no longer \<^verbatim>\<open>null\<close>: the removal
  visits the tokens of the window map.
\<close>

theorem rescan_leaves_no_orphan_counterexample:
  "map_keys (blur_actor_map (snd
       (update_all_windows (on_destroy (bound_state\<lparr>window_group_null := True\<rparr>) ''1'') [])))
     = [''1'']
   \<and> map_keys (window_map (snd
       (update_all_windows (on_destroy (bound_state\<lparr>window_group_null := True\<rparr>) ''1'') [])))
     = []
   \<and> map_keys (blur_actor_map (snd
       (update_all_windows (bound_state\<lparr>window_group_null := True\<rparr>) [])))
     = [''1'']
   \<and> map_keys (blur_actor_map (snd
       (update_all_windows
          ((on_destroy (bound_state\<lparr>window_group_null := True\<rparr>) ''1'')
             \<lparr>window_group_null := False\<rparr>) [])))
     = [''1'']
   \<and> map_keys (window_map (snd
       (update_all_windows
          ((on_destroy (bound_state\<lparr>window_group_null := True\<rparr>) ''1'')
             \<lparr>window_group_null := False\<rparr>) [])))
     = []"
  by code_simp

text \<open>
  Claim C6, amended. When \<^verbatim>\<open>global.window_group\<close> is not \<^verbatim>\<open>null\<close> and every bound token is
  a key of the window map, \<^verbatim>\<open>update_all_windows\<close> first empties both maps; in the state
  it leaves, every token of the binding map is a token of the window map, and is one of
  the tokens drawn for the windows the rescan enumerated. It completes when every
  enumerated window has an actor, and only then; the state it leaves when it raises
  satisfies the same.
\<close>

theorem rescan_leaves_no_orphan:
  assumes "\<not> window_group_null st" and "bindings_tracked st"
  shows "blur_actor_map (remove_all st (map_keys (window_map st))) = []
    \<and> window_map (remove_all st (map_keys (window_map st))) = []
    \<and> set (map_keys (blur_actor_map (snd (update_all_windows st workspaces))))
        \<subseteq> set (map_keys (window_map (snd (update_all_windows st workspaces))))
    \<and> set (map_keys (blur_actor_map (snd (update_all_windows st workspaces))))
        \<subseteq> set (map fst (concat workspaces))
    \<and> (fst (update_all_windows st workspaces) = None
         \<longleftrightarrow> list_all has_actor (concat workspaces))"
proof -
  let ?st = "remove_all st (map_keys (window_map st))"
  have b: "blur_actor_map ?st = []" and w: "window_map ?st = []"
    using remove_all_clears [OF assms] by simp_all
  have "bindings_tracked (snd (update_all_windows st workspaces))"
    using assms(2) by (rule update_all_windows_tracked)
  then have t: "set (map_keys (blur_actor_map (snd (update_all_windows st workspaces))))
        \<subseteq> set (map_keys (window_map (snd (update_all_windows st workspaces))))"
    by (simp add: bindings_tracked_def)
  have n: "set (map_keys (blur_actor_map (snd (update_all_windows st workspaces))))
        \<subseteq> set (map fst (concat workspaces))"
  proof
    fix q
    assume "q \<in> set (map_keys (blur_actor_map (snd (update_all_windows st workspaces))))"
    then have "map_has (blur_actor_map (snd (track_windows ?st (concat workspaces)))) q"
      by (simp add: map_has_keys update_all_windows_eq)
    then have "q \<in> fst ` set (concat workspaces) \<or> map_has (blur_actor_map ?st) q"
      by (rule track_windows_has_blur_weak)
    then show "q \<in> set (map fst (concat workspaces))"
      by (simp add: b map_has_def)
  qed
  have c: "fst (update_all_windows st workspaces) = None
      \<longleftrightarrow> list_all has_actor (concat workspaces)"
    by (simp add: update_all_windows_eq track_windows_completes)
  from b w t n c show ?thesis by blast
qed

theorem rescan_leaves_no_orphan_witness:
  "\<not> window_group_null bound_state \<and> bindings_tracked bound_state
   \<and> blur_actor_map (remove_all bound_state (map_keys (window_map bound_state))) = []
   \<and> window_map (remove_all bound_state (map_keys (window_map bound_state))) = []
   \<and> fst (update_all_windows bound_state
        [[(''2'', example_window (Some ''Foo'') None), (''3'', example_window (Some ''Bar'') None)]])
       = None
   \<and> map_keys (blur_actor_map (snd
        (update_all_windows bound_state
           [[(''2'', example_window (Some ''Foo'') None), (''3'', example_window (Some ''Bar'') None)]])))
       = [''2'']
   \<and> map_keys (window_map (snd
        (update_all_windows bound_state
           [[(''2'', example_window (Some ''Foo'') None), (''3'', example_window (Some ''Bar'') None)]])))
       = [''2'']"
proof -
  let ?wss = "[[(''2'', example_window (Some ''Foo'') None), (''3'', example_window (Some ''Bar'') None)]]"
  have a: "\<not> window_group_null bound_state" by (simp add: bound_state_eq)
  have t: "bindings_tracked bound_state"
    by (simp add: bound_state_eq bindings_tracked_def map_keys_def)
  note r = rescan_leaves_no_orphan [OF a t, of ?wss]
  have h: "list_all has_actor (concat ?wss)" by (simp add: has_actor_def example_window_def)
  have k: "map_keys (blur_actor_map (snd (update_all_windows bound_state ?wss))) = [''2'']"
    "map_keys (window_map (snd (update_all_windows bound_state ?wss))) = [''2'']"
    by code_simp+
  from r h have "fst (update_all_windows bound_state ?wss) = None" by blast
  with r a t k show ?thesis by blast
qed

section \<open>The hint parser: the marker and the integer shorthand\<close>

lemma star_tails_first: "\<exists>ts. star_tails p s = dropWhile p s # ts"
  by (induction s) auto

lemma take_dropWhile: "take (length s - length (dropWhile p s)) s = takeWhile p s"
proof -
  have "length s - length (dropWhile p s) = length (takeWhile p s)"
    by (metis add_diff_cancel_right' length_append takeWhile_dropWhile_id)
  then show ?thesis by (metis takeWhile_eq_take)
qed

lemma matches_arg_pattern:
  "matches arg_pattern (s, caps) =
     (if prefix marker s
      then map (\<lambda>t. (t, caps(1 \<mapsto> take (length (drop (length marker) s) - length t)
                                   (drop (length marker) s))))
             (star_tails (in_class Any_char) (drop (length marker) s))
      else [])"
  by (simp add: arg_pattern_def comp_def)

lemma marker_facts: "marker \<noteq> []" "hd marker \<notin> set (tl marker)"
  by (simp_all add: marker_def)

lemma match_arg_pattern_absent: "\<not> sublist marker s \<Longrightarrow> match arg_pattern s = None"
proof (induction s)
  case Nil
  then show ?case by (simp add: matches_arg_pattern marker_facts)
next
  case (Cons c t)
  then show ?case by (simp add: matches_arg_pattern sublist_Cons_right)
qed

lemma matches_arg_pattern_first:
  assumes "prefix marker s"
  shows "\<exists>rest. matches arg_pattern (s, caps) =
           (dropWhile (in_class Any_char) (drop (length marker) s),
            caps(1 \<mapsto> takeWhile (in_class Any_char) (drop (length marker) s))) # rest"
proof -
  define s' where "s' = drop (length marker) s"
  define f where "f = (\<lambda>t::string. (t, caps(1 \<mapsto> take (length s' - length t) s')))"
  obtain ts where ts: "star_tails (in_class Any_char) s' = dropWhile (in_class Any_char) s' # ts"
    using star_tails_first by blast
  have "matches arg_pattern (s, caps) = map f (star_tails (in_class Any_char) s')"
    using assms unfolding matches_arg_pattern f_def s'_def by (simp only: if_True)
  also have "\<dots> = f (dropWhile (in_class Any_char) s') # map f ts"
    unfolding ts by simp
  also have "f (dropWhile (in_class Any_char) s')
      = (dropWhile (in_class Any_char) s', caps(1 \<mapsto> takeWhile (in_class Any_char) s'))"
    unfolding f_def by (simp only: take_dropWhile)
  finally show ?thesis unfolding s'_def by blast
qed

lemma match_arg_pattern_prefix:
  assumes "prefix marker s"
  shows "match arg_pattern s = Some [1 \<mapsto> takeWhile (in_class Any_char) (drop (length marker) s)]"
proof -
  from matches_arg_pattern_first [OF assms, of Map.empty] obtain rest where
    m: "matches arg_pattern (s, Map.empty) =
           (dropWhile (in_class Any_char) (drop (length marker) s),
            [1 \<mapsto> takeWhile (in_class Any_char) (drop (length marker) s)]) # rest"
    by blast
  from assms marker_facts(1) obtain c t where s: "s = c # t" by (cases s) auto
  have "match arg_pattern (c # t) =
      (case matches arg_pattern (c # t, Map.empty) of [] \<Rightarrow> match arg_pattern t
       | (_, caps) # _ \<Rightarrow> Some caps)"
    by (rule match.simps)
  then show ?thesis unfolding s [symmetric] m by simp
qed


lemma no_overlap:
  assumes "m \<noteq> []" and "hd m \<notin> set (tl m)" and "p \<noteq> []" and "prefix m (p @ m @ r)"
  shows "prefix m p"
proof -
  from assms(4) have "prefix m p \<or> (\<exists>us. m = p @ us \<and> prefix us (m @ r))"
    unfolding prefix_append by blast
  then show ?thesis
  proof
    assume "prefix m p"
    then show ?thesis .
  next
    assume "\<exists>us. m = p @ us \<and> prefix us (m @ r)"
    then obtain us where m: "m = p @ us" and us: "prefix us (m @ r)" by blast
    show ?thesis
    proof (cases us)
      case Nil
      with m show ?thesis by simp
    next
      case (Cons u us')
      from assms(3) obtain x p' where p: "p = x # p'" by (cases p) auto
      have "tl m = p' @ us" unfolding m p by simp
      then have "u \<in> set (tl m)" unfolding Cons by simp
      moreover have "hd m = x" unfolding m p by simp
      moreover have "u = x"
        using us unfolding Cons m p by simp
      ultimately show ?thesis using assms(2) by simp
    qed
  qed
qed

lemma match_arg_pattern_first:
  "\<not> sublist marker pre \<Longrightarrow>
     match arg_pattern (pre @ marker @ r) = Some [1 \<mapsto> takeWhile (in_class Any_char) r]"
proof (induction pre)
  case Nil
  have e: "drop (length marker) (marker @ r) = r" by simp
  have "match arg_pattern (marker @ r)
      = Some [1 \<mapsto> takeWhile (in_class Any_char) (drop (length marker) (marker @ r))]"
    by (rule match_arg_pattern_prefix) simp
  then show ?case unfolding e append_Nil .
next
  case (Cons c t)
  then have t: "\<not> sublist marker t" and c: "\<not> prefix marker (c # t)"
    by (simp_all add: sublist_Cons_right)
  have "\<not> prefix marker ((c # t) @ marker @ r)"
    using no_overlap [OF marker_facts, of "c # t" r] c by blast
  then show ?case using Cons.IH [OF t] by (simp add: matches_arg_pattern)
qed



lemma digit_not_white_space: "is_digit c \<Longrightarrow> \<not> is_white_space c"
  by (auto simp: is_digit_def is_white_space_def)

lemma digit_not_line_terminator: "is_digit c \<Longrightarrow> \<not> is_line_terminator c"
  by (auto simp: is_digit_def is_line_terminator_def)

lemma digit_value_range: "is_digit c \<Longrightarrow> 0 \<le> digit_value c \<and> digit_value c \<le> 9"
  by (auto simp: is_digit_def digit_value_def)

lemma foldl_digits_nonneg:
  "\<forall>c\<in>set ds. is_digit c \<Longrightarrow> 0 \<le> acc \<Longrightarrow>
     0 \<le> foldl (\<lambda>acc c. acc * 10 + digit_value c) acc ds"
proof (induction ds arbitrary: acc)
  case Nil
  then show ?case by simp
next
  case (Cons d ds)
  then have "0 \<le> acc * 10 + digit_value d" using digit_value_range [of d] by simp
  with Cons show ?case by simp
qed

lemma digits_value_nonneg: "\<forall>c\<in>set ds. is_digit c \<Longrightarrow> 0 \<le> digits_value 10 ds"
  by (simp add: digits_value_def foldl_digits_nonneg)

lemma parseInt_digits:
  assumes "ds \<noteq> []" and "\<forall>c\<in>set ds. is_digit c"
  shows "parseInt ds = Some (digits_value 10 ds)"
proof -
  from assms obtain d ds' where ds: "ds = d # ds'" and d: "is_digit d"
    by (cases ds) auto
  have w: "dropWhile is_white_space ds = ds"
    using d by (simp add: ds digit_not_white_space)
  have s: "d \<noteq> CHR ''+''" "d \<noteq> CHR ''-''" using d by (auto simp: is_digit_def)
  have nx: "\<not> is_digit CHR ''x''" "\<not> is_digit CHR ''X''" by (simp_all add: is_digit_def)
  have x: "\<not> prefix ''0x'' ds"
  proof
    assume "prefix ''0x'' ds"
    then obtain zs where "ds = ''0x'' @ zs" by (rule prefixE)
    then have "CHR ''x'' \<in> set ds" by simp
    with assms(2) nx show False by blast
  qed
  have x': "\<not> prefix ''0X'' ds"
  proof
    assume "prefix ''0X'' ds"
    then obtain zs where "ds = ''0X'' @ zs" by (rule prefixE)
    then have "CHR ''X'' \<in> set ds" by simp
    with assms(2) nx show False by blast
  qed
  have t: "takeWhile is_digit ds = ds" using assms(2) by simp
  have S1: "(case ds of [] \<Rightarrow> [] | c # t \<Rightarrow> if c = CHR ''+'' \<or> c = CHR ''-'' then t else ds) = ds"
    using s by (simp add: ds)
  have neg: "(case ds of [] \<Rightarrow> False | c # _ \<Rightarrow> c = CHR ''-'') = False"
    using s by (simp add: ds)
  have hex: "(prefix ''0x'' ds \<or> prefix ''0X'' ds) = False" using x x' by simp
  show ?thesis
    unfolding parseInt_def Let_def w S1 neg hex if_False t
    using assms(1) by simp
qed

lemma takeWhile_any_digits:
  "\<forall>c\<in>set ds. is_digit c \<Longrightarrow> takeWhile (in_class Any_char) ds = ds"
  by (simp add: digit_not_line_terminator)


lemma parse_xprop_absent:
  "\<not> sublist marker property \<Longrightarrow> parse_xprop p property = default_values p"
  by (simp add: parse_xprop_def match_arg_pattern_absent split_beta)

lemma parse_xprop_shorthand:
  assumes "\<not> sublist marker pre" and "ds \<noteq> []" and "\<forall>c\<in>set ds. is_digit c"
    and "digits_value 10 ds \<le> 999"
  shows "parse_xprop p (pre @ marker @ ds) = (fst (default_values p), digits_value 10 ds)"
proof -
  have m: "match arg_pattern (pre @ marker @ ds) = Some [1 \<mapsto> ds]"
    using match_arg_pattern_first [OF assms(1), of ds] takeWhile_any_digits [OF assms(3)]
    by simp
  have i: "parseInt ds = Some (digits_value 10 ds)"
    using assms(2,3) by (rule parseInt_digits)
  have n: "0 \<le> digits_value 10 ds" using assms(3) by (rule digits_value_nonneg)
  show ?thesis
    unfolding parse_xprop_def m
    using i n assms(4) by (simp add: split_beta)
qed

lemma in_class_Any_char: "in_class Any_char = (\<lambda>c. \<not> is_line_terminator c)"
  by (rule ext) simp

lemma parse_xprop_parseInt:
  assumes "\<not> sublist marker pre"
    and "parseInt (takeWhile (\<lambda>c. \<not> is_line_terminator c) r) = Some n"
    and "0 \<le> n" and "n \<le> 999"
  shows "parse_xprop p (pre @ marker @ r) = (fst (default_values p), n)"
proof -
  have m: "match arg_pattern (pre @ marker @ r)
      = Some [1 \<mapsto> takeWhile (\<lambda>c. \<not> is_line_terminator c) r]"
    using match_arg_pattern_first [OF assms(1), of r] unfolding in_class_Any_char .
  show ?thesis
    unfolding parse_xprop_def m
    using assms(2-4) by (simp add: split_beta)
qed

text \<open>
  Claim C4. When the hint is the marker \<^verbatim>\<open>blur-provider=\<close>, at its first occurrence,
  followed by a decimal numeral of value at most 999 and nothing else, \<^verbatim>\<open>parse_xprop\<close>
  returns the default brightness and the value of the numeral. More generally it does so
  whenever \<^verbatim>\<open>parseInt\<close> reads, from the rest of the line after the first marker, an integer
  between 0 and 999. When the hint does not contain the marker it returns the two default
  values. The witness has the hint \<^verbatim>\<open>blur-provider=60\<close> with the default values (0.9, 40),
  which gives (0.9, 60).
\<close>

theorem parse_xprop_integer_shorthand:
  "(\<not> sublist ''blur-provider='' pre \<and> ds \<noteq> [] \<and> (\<forall>c\<in>set ds. is_digit c)
      \<and> digits_value 10 ds \<le> 999 \<longrightarrow>
      parse_xprop p (pre @ ''blur-provider='' @ ds)
        = (fst (default_values p), digits_value 10 ds))
   \<and> (\<not> sublist ''blur-provider='' pre
      \<and> parseInt (takeWhile (\<lambda>c. \<not> is_line_terminator c) r) = Some n \<and> 0 \<le> n \<and> n \<le> 999 \<longrightarrow>
      parse_xprop p (pre @ ''blur-provider='' @ r) = (fst (default_values p), n))
   \<and> (\<not> sublist ''blur-provider='' property \<longrightarrow> parse_xprop p property = default_values p)"
  using parse_xprop_shorthand [of pre ds p] parse_xprop_parseInt [of pre r n p]
    parse_xprop_absent [of "property" p]
  unfolding marker_def by blast

theorem parse_xprop_integer_shorthand_witness:
  "\<not> sublist ''blur-provider='' ''_NET_WM=1:'' \<and> ''60'' \<noteq> []
   \<and> is_digit CHR ''6'' \<and> is_digit CHR ''0'' \<and> digits_value 10 ''60'' = 60
   \<and> default_values prefs_whitelist = (Num (9 / 10), 40)
   \<and> parse_xprop prefs_whitelist ''blur-provider=60'' = (Num (9 / 10), 60)
   \<and> parse_xprop prefs_whitelist ''_NET_WM=1:blur-provider=60'' = (Num (9 / 10), 60)
   \<and> parseInt (takeWhile (\<lambda>c. \<not> is_line_terminator c) ''7px'') = Some 7
   \<and> parse_xprop prefs_whitelist ''blur-provider=7px'' = (Num (9 / 10), 7)
   \<and> \<not> sublist ''blur-provider='' ''blur-provider:60''
   \<and> parse_xprop prefs_whitelist ''blur-provider:60'' = (Num (9 / 10), 40)"
proof -
  have s: "\<not> sublist ''blur-provider='' ''_NET_WM=1:''" "\<not> sublist ''blur-provider='' []"
    "\<not> sublist ''blur-provider='' ''blur-provider:60''"
    by code_simp+
  have d: "''60'' \<noteq> []" "is_digit CHR ''6''" "is_digit CHR ''0''"
    by (simp_all add: is_digit_def)
  then have a: "\<forall>c\<in>set ''60''. is_digit c" by simp
  have v: "digits_value 10 ''60'' = 60" by (simp add: digits_value_def digit_value_def)
  have i: "parseInt (takeWhile (\<lambda>c. \<not> is_line_terminator c) ''7px'') = Some 7"
    by code_simp
  have f: "default_values prefs_whitelist = (Num (9 / 10), 40)"
    by (simp add: default_values_def prefs_whitelist_def)
  note t1 = parse_xprop_integer_shorthand
    [of "[]" "''60''" prefs_whitelist "''7px''" 7 "''blur-provider:60''"]
  note t2 = parse_xprop_integer_shorthand
    [of "''_NET_WM=1:''" "''60''" prefs_whitelist "''7px''" 7 "[]"]
  from t1 s(2,3) d(1) a v f i
  have r1: "parse_xprop prefs_whitelist ''blur-provider=60'' = (Num (9 / 10), 60)"
    and r3: "parse_xprop prefs_whitelist ''blur-provider:60'' = (Num (9 / 10), 40)"
    and r4: "parse_xprop prefs_whitelist ''blur-provider=7px'' = (Num (9 / 10), 7)"
    by simp_all
  from t2 s(1) d(1) a v f
  have r2: "parse_xprop prefs_whitelist ''_NET_WM=1:blur-provider=60'' = (Num (9 / 10), 60)"
    by simp
  from s(1,3) d v f i r1 r2 r3 r4 show ?thesis by (intro conjI)
qed

section \<open>The hint parser: the two labelled fields\<close>

text \<open>
  Claim C5, where the code departs from it. The brightness \<^verbatim>\<open>x\<close> of the hint
  \<^verbatim>\<open>blur-provider=b:x,s:16\<close> is no number, yet the brightness pattern matches it (its
  \<^verbatim>\<open>.\<close> is any character) and \<^verbatim>\<open>parse_xprop\<close> returns the brightness \<^verbatim>\<open>NaN\<close> where the
  claim keeps the default 0.9. With the brightness field first under its long label, the
  sigma pattern matches the \<^verbatim>\<open>s:\<close> that ends \<^verbatim>\<open>brightness:\<close>: the sigma is read from the
  value of the brightness (0 for \<^verbatim>\<open>0.5\<close>, the default for \<^verbatim>\<open>default\<close>) and the field
  \<^verbatim>\<open>sigma:60\<close> is not read.
\<close>

theorem parse_xprop_fields_divergence:
  "parse_xprop prefs_whitelist ''blur-provider=b:x,s:16'' = (NaN, 16)
   \<and> parse_xprop prefs_whitelist ''blur-provider=brightness:0.5,sigma:60'' = (Num (1 / 2), 0)
   \<and> parse_xprop prefs_whitelist ''blur-provider=brightness:default,sigma:60''
       = (Num (9 / 10), 40)"
  by code_simp

text \<open>The hints that the claim and the comment of \<^verbatim>\<open>parse_xprop\<close> give as examples.\<close>

lemma parse_xprop_fields_examples:
  "parse_xprop prefs_whitelist ''blur-provider=sigma:default,brightness:0.5'' = (Num (1 / 2), 40)"
  "parse_xprop prefs_whitelist ''blur-provider=b:1.0,s:16'' = (Num 1, 16)"
  "parse_xprop prefs_whitelist ''blur-provider=s:10,brightness:0.492'' = (Num (492 / 1000), 10)"
  "parse_xprop prefs_whitelist ''blur-provider=sigma:60,brightness:0.9'' = (Num (9 / 10), 60)"
  by code_simp+

section \<open>Every group takes part in every match\<close>

lemma match_Some:
  "match r s = Some g \<Longrightarrow> \<exists>t rest more. matches r (t, Map.empty) = (rest, g) # more"
proof (induction s)
  case Nil
  then show ?case by (auto split: list.splits prod.splits)
next
  case (Cons c s)
  show ?case
  proof (cases "matches r (c # s, Map.empty)")
    case Nil
    with Cons show ?thesis by simp
  next
    case (Cons x xs)
    with Cons.prems show ?thesis by (cases x) auto
  qed
qed

lemma repeat_tails_elem:
  "t \<in> set (repeat_tails p lo hi s) \<Longrightarrow>
     \<exists>k. lo \<le> k \<and> k \<le> hi \<and> k \<le> length s \<and> t = drop k s \<and> (\<forall>c\<in>set (take k s). p c)"
proof (induction s arbitrary: lo hi)
  case Nil
  then show ?case by (auto split: if_splits)
next
  case (Cons c s)
  from Cons.prems consider
      (more) "hi \<noteq> 0" "p c" "t \<in> set (repeat_tails p (lo - 1) (hi - 1) s)"
    | (stop) "lo = 0" "t = c # s"
    by (auto split: if_splits)
  then show ?case
  proof cases
    case more
    from Cons.IH [OF more(3)] obtain k where
      k: "lo - 1 \<le> k" "k \<le> hi - 1" "k \<le> length s" "t = drop k s" "\<forall>c\<in>set (take k s). p c"
      by blast
    have "lo \<le> Suc k" "Suc k \<le> hi" "Suc k \<le> length (c # s)" "t = drop (Suc k) (c # s)"
      "\<forall>d\<in>set (take (Suc k) (c # s)). p d"
      using k more(1,2) by auto
    then show ?thesis by blast
  next
    case stop
    then have "lo \<le> 0" "0 \<le> hi" "0 \<le> length (c # s)" "t = drop 0 (c # s)"
      "\<forall>d\<in>set (take 0 (c # s)). p d"
      by simp_all
    then show ?thesis by blast
  qed
qed

lemma arg_group:
  assumes "match arg_pattern s = Some g"
  shows "g 1 \<noteq> None"
proof -
  from match_Some [OF assms] obtain t rest more where
    "matches arg_pattern (t, Map.empty) = (rest, g) # more" by blast
  then show ?thesis
    by (auto simp: matches_arg_pattern Cons_eq_map_conv split: if_splits)
qed

lemma in_matches_Seq:
  "x \<in> set (matches (Seq a b) st) \<longleftrightarrow> (\<exists>mid\<in>set (matches a st). x \<in> set (matches b mid))"
  by (cases st) auto

lemma in_matches_Group:
  "(rest, g) \<in> set (matches (Group n r) (s, caps)) \<longleftrightarrow>
     (\<exists>caps'. (rest, caps') \<in> set (matches r (s, caps))
        \<and> g = caps'(n \<mapsto> take (length s - length rest) s))"
proof
  assume "(rest, g) \<in> set (matches (Group n r) (s, caps))"
  then obtain x where x: "x \<in> set (matches r (s, caps))"
    and e: "(rest, g) = (case x of (t, caps') \<Rightarrow> (t, caps'(n \<mapsto> take (length s - length t) s)))"
    by auto
  obtain t caps' where "x = (t, caps')" by (cases x)
  with x e show "\<exists>caps'. (rest, caps') \<in> set (matches r (s, caps))
        \<and> g = caps'(n \<mapsto> take (length s - length rest) s)"
    by auto
next
  assume "\<exists>caps'. (rest, caps') \<in> set (matches r (s, caps))
        \<and> g = caps'(n \<mapsto> take (length s - length rest) s)"
  then obtain caps' where "(rest, caps') \<in> set (matches r (s, caps))"
    and "g = caps'(n \<mapsto> take (length s - length rest) s)" by blast
  then show "(rest, g) \<in> set (matches (Group n r) (s, caps))"
    by (force simp: image_iff)
qed

lemma in_matches_Lit:
  "(rest, g) \<in> set (matches (Lit l) (s, caps)) \<longleftrightarrow>
     prefix l s \<and> rest = drop (length l) s \<and> g = caps"
  by auto

lemma take_prefix: "prefix l s \<Longrightarrow> take (length s - length (drop (length l) s)) s = l"
  by (auto simp: prefix_def)

lemma group2_sigma:
  assumes "(rest, g) \<in> set (matches (Group 2 (Alt (Lit ''default'') (Repeat 1 3 Digit_char))) (s, caps))"
  shows "\<exists>v. g 2 = Some v \<and> (v = ''default'' \<or> (v \<noteq> [] \<and> (\<forall>c\<in>set v. is_digit c)))"
proof -
  from assms obtain caps' where
    m: "(rest, caps') \<in> set (matches (Alt (Lit ''default'') (Repeat 1 3 Digit_char)) (s, caps))"
    and g: "g = caps'(2 \<mapsto> take (length s - length rest) s)"
    unfolding in_matches_Group by blast
  from m consider
      (lit) "(rest, caps') \<in> set (matches (Lit ''default'') (s, caps))"
    | (rep) "rest \<in> set (repeat_tails (in_class Digit_char) 1 3 s)"
    by auto
  then show ?thesis
  proof cases
    case lit
    then have "prefix ''default'' s" "rest = drop (length ''default'') s"
      unfolding in_matches_Lit by simp_all
    then have "take (length s - length rest) s = ''default''"
      using take_prefix [of "''default''" s] by simp
    then show ?thesis by (simp add: g)
  next
    case rep
    from repeat_tails_elem [OF rep] obtain k where
      k: "1 \<le> k" "k \<le> length s" "rest = drop k s" "\<forall>c\<in>set (take k s). in_class Digit_char c"
      by blast
    then have "take (length s - length rest) s = take k s" by simp
    moreover have "take k s \<noteq> []" using k(1,2) by (cases s) auto
    ultimately show ?thesis using k(4) by (simp add: g)
  qed
qed

lemma sigma_group:
  assumes "match sigma_pattern s = Some g"
  shows "\<exists>v. g 2 = Some v \<and> (v = ''default'' \<or> parseInt v \<noteq> None)"
proof -
  from match_Some [OF assms] obtain t rest more where
    "matches sigma_pattern (t, Map.empty) = (rest, g) # more" by blast
  then have "(rest, g) \<in> set (matches sigma_pattern (t, Map.empty))" by simp
  then obtain mid1 mid2 where
    "mid2 \<in> set (matches (Lit '':'') mid1)"
    "(rest, g) \<in> set (matches (Group 2 (Alt (Lit ''default'') (Repeat 1 3 Digit_char))) mid2)"
    unfolding sigma_pattern_def in_matches_Seq by blast
  moreover obtain s2 caps2 where "mid2 = (s2, caps2)" by (cases mid2)
  ultimately have
    "(rest, g) \<in> set (matches (Group 2 (Alt (Lit ''default'') (Repeat 1 3 Digit_char))) (s2, caps2))"
    by simp
  from group2_sigma [OF this] obtain v where
    v: "g 2 = Some v" "v = ''default'' \<or> (v \<noteq> [] \<and> (\<forall>c\<in>set v. is_digit c))"
    by blast
  then show ?thesis using parseInt_digits [of v] by auto
qed

lemma brightness_group:
  assumes "match brightness_pattern s = Some g"
  shows "g 2 \<noteq> None"
proof -
  from match_Some [OF assms] obtain t rest more where
    "matches brightness_pattern (t, Map.empty) = (rest, g) # more" by blast
  then have "(rest, g) \<in> set (matches brightness_pattern (t, Map.empty))" by simp
  then obtain mid2 where
    "(rest, g) \<in> set (matches (Group 2 (Alt (Lit ''default'')
           (Seq (Opt (Lit ''0'')) (Seq (Opt (Lit ''1''))
             (Seq (Class Any_char) (Star Digit_char)))))) mid2)"
    unfolding brightness_pattern_def in_matches_Seq by blast
  moreover obtain s2 caps2 where "mid2 = (s2, caps2)" by (cases mid2)
  ultimately have
    "(rest, g) \<in> set (matches (Group 2 (Alt (Lit ''default'')
           (Seq (Opt (Lit ''0'')) (Seq (Opt (Lit ''1''))
             (Seq (Class Any_char) (Star Digit_char)))))) (s2, caps2))"
    by simp
  then obtain caps' v where "g = caps'(2 \<mapsto> v)"
    unfolding in_matches_Group by blast
  then show ?thesis by simp
qed

end
